theory Spec2Isabelle
  imports Complex_Main "HOL-Library.Word"
begin

section \<open>JavaScript strings\<close>

text \<open>
  The script \<^verbatim>\<open>translate.bun.ts\<close> works on JavaScript strings: sequences of 16-bit
  code units. Keys, phrases, language codes and paths are all of that type. The regular
  expression of line 143 has no \<^verbatim>\<open>u\<close> flag, so it matches code unit by code unit.
\<close>

type_synonym jschar = "16 word"
type_synonym jsstring = "jschar list"

definition str :: "string \<Rightarrow> jsstring" where
  \<comment> \<open>a string literal of the source whose characters are below U+0100\<close>
  "str s = map of_char s"

definition isWhiteSpace :: "jschar \<Rightarrow> bool" where
  \<comment> \<open>the class \<^verbatim>\<open>\s\<close> of ECMAScript: WhiteSpace and LineTerminator\<close>
  "isWhiteSpace c \<longleftrightarrow>
     c \<in> set [0x0009, 0x000A, 0x000B, 0x000C, 0x000D, 0x0020, 0x00A0, 0x1680,
              0x2028, 0x2029, 0x202F, 0x205F, 0x3000, 0xFEFF]
     \<or> (0x2000 \<le> c \<and> c \<le> 0x200A)"

definition GT :: jschar where
  \<comment> \<open>the right angle bracket\<close>
  "GT = 0x003E"

fun replaceAll_gt_ws :: "jsstring \<Rightarrow> jsstring" where
  \<comment> \<open>line 143: \<^verbatim>\<open>translation.replaceAll(/\>\s/g, ">")\<close>; the scan goes left to right
      and resumes after each match\<close>
  "replaceAll_gt_ws (a # b # cs) =
     (if a = GT \<and> isWhiteSpace b then GT # replaceAll_gt_ws cs
      else a # replaceAll_gt_ws (b # cs))"
| "replaceAll_gt_ws cs = cs"

fun includes_str :: "jsstring \<Rightarrow> jsstring \<Rightarrow> bool" where
  \<comment> \<open>\<^verbatim>\<open>s.includes(p)\<close>: the string \<open>p\<close> occurs in \<open>s\<close>\<close>
  "includes_str [] p = (p = [])"
| "includes_str (c # cs) p = (take (length p) (c # cs) = p \<or> includes_str cs p)"

fun gt_ws_free :: "jsstring \<Rightarrow> bool" where
  \<comment> \<open>no right angle bracket is directly followed by a white space character\<close>
  "gt_ws_free (a # b # cs) = (\<not> (a = GT \<and> isWhiteSpace b) \<and> gt_ws_free (b # cs))"
| "gt_ws_free cs = True"

fun drop_ws_after_gt :: "jschar \<Rightarrow> jsstring \<Rightarrow> jsstring" where
  \<comment> \<open>the normalization in the words of the specification: a character is removed exactly
      when it is a white space character whose predecessor in the original text (\<open>prev\<close>
      for the first one) is the right angle bracket\<close>
  "drop_ws_after_gt prev [] = []"
| "drop_ws_after_gt prev (c # cs) =
     (if prev = GT \<and> isWhiteSpace c then drop_ws_after_gt c cs
      else c # drop_ws_after_gt c cs)"

section \<open>Phrase mappings\<close>

text \<open>
  A value of type \<^verbatim>\<open>Record<string, string>\<close> is modelled by its own properties, in the
  order of \<^verbatim>\<open>Object.keys\<close>: the keys that are array indices first, in ascending order,
  then the other keys in the order of their creation. The objects of the script come from
  \<^verbatim>\<open>JSON.parse\<close>, which makes every key of the text an own property, the key
  \<^verbatim>\<open>__proto__\<close> included.
\<close>

type_synonym phrases = "(jsstring \<times> jsstring) list"

definition Object_keys :: "phrases \<Rightarrow> jsstring list" where
  "Object_keys obj = map fst obj"

definition get_prop :: "phrases \<Rightarrow> jsstring \<Rightarrow> jsstring option" where
  \<comment> \<open>the value of the own property \<open>key\<close>, \<open>None\<close> when the object has no such own
      property; the script reads \<^verbatim>\<open>sourcePhrases[key]\<close> at own keys only\<close>
  "get_prop obj key = map_of obj key"

definition PROTO :: jsstring where
  "PROTO = str ''__proto__''"

definition is_digit :: "jschar \<Rightarrow> bool" where
  "is_digit c \<longleftrightarrow> 0x0030 \<le> c \<and> c \<le> 0x0039"

definition decimal :: "jsstring \<Rightarrow> nat" where
  "decimal key = foldl (\<lambda>n c. 10 * n + (unat c - 48)) 0 key"

definition array_index :: "jsstring \<Rightarrow> nat option" where
  \<comment> \<open>a key is an array index when it is the canonical decimal of a number below
      \<open>2 ^ 32 - 1\<close>\<close>
  "array_index key =
     (if key \<noteq> [] \<and> list_all is_digit key \<and> (length key = 1 \<or> hd key \<noteq> 0x0030)
         \<and> decimal key < 2 ^ 32 - 1
      then Some (decimal key) else None)"

fun insert_index :: "nat \<Rightarrow> jsstring \<Rightarrow> jsstring \<Rightarrow> phrases \<Rightarrow> phrases" where
  \<comment> \<open>a new array index goes after the smaller array indices\<close>
  "insert_index n key v [] = [(key, v)]"
| "insert_index n key v ((k, x) # obj) =
     (case array_index k of
        Some m \<Rightarrow> if m < n then (k, x) # insert_index n key v obj else (key, v) # (k, x) # obj
      | None \<Rightarrow> (key, v) # (k, x) # obj)"

fun replace_prop :: "jsstring \<Rightarrow> jsstring \<Rightarrow> phrases \<Rightarrow> phrases" where
  \<comment> \<open>an own property takes a new value and keeps its place\<close>
  "replace_prop key v [] = []"
| "replace_prop key v ((k, x) # obj) =
     (if k = key then (k, v) # obj else (k, x) # replace_prop key v obj)"

definition set_prop :: "jsstring \<Rightarrow> jsstring \<Rightarrow> phrases \<Rightarrow> phrases" where
  \<comment> \<open>\<^verbatim>\<open>obj[key] = v\<close> for a string \<open>v\<close>. An own property keeps its place and takes the
      value. Without an own property, the key \<^verbatim>\<open>__proto__\<close> reaches the setter of
      \<^verbatim>\<open>Object.prototype\<close>, which ignores a string: nothing is stored. Any other key
      becomes a new own property, in the place \<^verbatim>\<open>Object.keys\<close> gives it.\<close>
  "set_prop key v obj =
     (if key \<in> set (Object_keys obj) then replace_prop key v obj
      else if key = PROTO then obj
      else case array_index key of
             Some n \<Rightarrow> insert_index n key v obj
           | None \<Rightarrow> obj @ [(key, v)])"

definition delete_prop :: "jsstring \<Rightarrow> phrases \<Rightarrow> phrases" where
  \<comment> \<open>\<^verbatim>\<open>delete obj[key]\<close>\<close>
  "delete_prop key obj = filter (\<lambda>(k, x). k \<noteq> key) obj"

definition or_empty :: "jsstring option \<Rightarrow> jsstring" where
  \<comment> \<open>\<^verbatim>\<open>x || ""\<close>: \<^verbatim>\<open>undefined\<close> and the empty string are the falsy values of the type\<close>
  "or_empty x = (case x of None \<Rightarrow> [] | Some v \<Rightarrow> if v = [] then [] else v)"

subsection \<open>The difference of two lists (ramda)\<close>

text \<open>
  \<^verbatim>\<open>difference(first, second)\<close> of the ramda library walks \<open>first\<close> with a set of the
  values to leave out, which starts as the elements of \<open>second\<close> and grows by every value
  let through: the result holds each value of \<open>first\<close> that is not in \<open>second\<close> once,
  in the order of its first occurrence.
\<close>

fun difference_loop :: "'a list \<Rightarrow> 'a list \<Rightarrow> 'a list" where
  "difference_loop [] toFilterOut = []"
| "difference_loop (x # first) toFilterOut =
     (if x \<in> set toFilterOut then difference_loop first toFilterOut
      else x # difference_loop first (x # toFilterOut))"

definition difference :: "'a list \<Rightarrow> 'a list \<Rightarrow> 'a list" where
  "difference first second = difference_loop first second"

section \<open>The world outside the script\<close>

text \<open>
  Files hold JSON text. A file is abstracted to what \<^verbatim>\<open>JSON.parse\<close> makes of it: a
  phrase mapping, or text that does not parse. \<^verbatim>\<open>JSON.stringify\<close> followed by a parse
  gives the mapping back, and the indentation of the text is not modelled.
\<close>

datatype content = JsonObject phrases | NotJson

datatype error = ENOENT | EEXIST | EISDIR | SyntaxError | ProviderError

text \<open>
  Every call that leaves the script is recorded, in the order of issue: the calls to
  \<^verbatim>\<open>fs\<close>, to \<^verbatim>\<open>Bun\<close> and to the translation client, and the line the batching loop prints at
  the start of each iteration (lines 152 to 156), with the two values it interpolates.
  A call to the translation client is recorded a second time when it settles and the rest
  of \<^verbatim>\<open>runTranslation\<close> runs: \<open>Settled n a\<close> says that the call number \<open>n\<close> (counted
  from 0) settled with the answer \<open>a\<close>.

  The calls of a batch are pending together, and the world decides in which order they
  settle: \<open>arrival w n\<close> is the time at which the call number \<open>n\<close> settles. Among pending
  calls the one with the least time settles first, calls with the same time in the order
  of issue.
\<close>

datatype event =
    Stat jsstring
  | Mkdir jsstring
  | WriteFile jsstring content
  | ReadJSON jsstring
  | BunWrite jsstring content
  | Translate jsstring jsstring jsstring
  | Settled nat "error + jsstring"
  | BatchLog jsstring nat

record world =
  dirs :: "jsstring set"
  files :: "jsstring \<rightharpoonup> content"
  trace :: "event list"
  arrival :: "nat \<Rightarrow> nat"

type_synonym 'a io = "world \<Rightarrow> (error + 'a) \<times> world"

definition emit :: "event \<Rightarrow> world \<Rightarrow> world" where
  "emit e w = w\<lparr>trace := trace w @ [e]\<rparr>"

definition dirname :: "jsstring \<Rightarrow> jsstring" where
  \<comment> \<open>the path without its last component; empty (the working directory) when the path
      has a single component\<close>
  "dirname p = rev (drop 1 (dropWhile (\<lambda>c. c \<noteq> 0x002F) (rev p)))"

definition is_dir :: "world \<Rightarrow> jsstring \<Rightarrow> bool" where
  "is_dir w p \<longleftrightarrow> p = [] \<or> p \<in> dirs w"

definition path_exists :: "world \<Rightarrow> jsstring \<Rightarrow> bool" where
  "path_exists w p \<longleftrightarrow> p \<in> dirs w \<or> files w p \<noteq> None"

definition fs_stat :: "jsstring \<Rightarrow> unit io" where
  \<comment> \<open>\<^verbatim>\<open>fs.stat(path)\<close> resolves when the path names a file or a directory\<close>
  "fs_stat p w = (if path_exists w p then Inr () else Inl ENOENT, emit (Stat p) w)"

definition fs_mkdir :: "jsstring \<Rightarrow> unit io" where
  \<comment> \<open>\<^verbatim>\<open>fs.mkdir(path)\<close>, not recursive: the path must be new and its parent a directory\<close>
  "fs_mkdir p w =
     (let w1 = emit (Mkdir p) w in
      if path_exists w p then (Inl EEXIST, w1)
      else if \<not> is_dir w (dirname p) then (Inl ENOENT, w1)
      else (Inr (), w1\<lparr>dirs := insert p (dirs w1)\<rparr>))"

definition fs_writeFile :: "jsstring \<Rightarrow> content \<Rightarrow> unit io" where
  \<comment> \<open>\<^verbatim>\<open>fs.writeFile(path, data)\<close> creates or replaces a file in an existing directory\<close>
  "fs_writeFile p c w =
     (let w1 = emit (WriteFile p c) w in
      if p \<in> dirs w then (Inl EISDIR, w1)
      else if \<not> is_dir w (dirname p) then (Inl ENOENT, w1)
      else (Inr (), w1\<lparr>files := (files w1)(p \<mapsto> c)\<rparr>))"

definition Bun_write :: "jsstring \<Rightarrow> content \<Rightarrow> unit io" where
  \<comment> \<open>\<^verbatim>\<open>Bun.write(path, data)\<close>; the script calls it on a file it has just read\<close>
  "Bun_write p c w =
     (let w1 = emit (BunWrite p c) w in
      if p \<in> dirs w then (Inl EISDIR, w1)
      else (Inr (), w1\<lparr>files := (files w1)(p \<mapsto> c)\<rparr>))"

definition JSON_stringify :: "phrases \<Rightarrow> content" where
  "JSON_stringify obj = JsonObject obj"

definition readJSONFile :: "jsstring \<Rightarrow> phrases io" where
  \<comment> \<open>lines 85 and 86: \<^verbatim>\<open>Bun.file(path).json()\<close>\<close>
  "readJSONFile p w =
     (let w1 = emit (ReadJSON p) w in
      if p \<in> dirs w then (Inl EISDIR, w1)
      else case files w p of
             None \<Rightarrow> (Inl ENOENT, w1)
           | Some NotJson \<Rightarrow> (Inl SyntaxError, w1)
           | Some (JsonObject obj) \<Rightarrow> (Inr obj, w1))"

text \<open>
  The translation client is a parameter. Its answer may depend on the arguments and on
  how many calls were issued before (a service may fail once and succeed later); any run
  of the script against a real service is replayed by such a function.
\<close>

type_synonym translate = "nat \<Rightarrow> jsstring \<Rightarrow> jsstring \<Rightarrow> jsstring \<Rightarrow> error + jsstring"

fun is_Translate :: "event \<Rightarrow> bool" where
  "is_Translate (Translate text from to) = True"
| "is_Translate e = False"

definition translate_calls :: "world \<Rightarrow> event list" where
  "translate_calls w = filter is_Translate (trace w)"

section \<open>The script\<close>

record language =
  code :: jsstring
  name :: jsstring
  flag :: jsstring

definition targetLanguages :: "language list" where
  \<comment> \<open>lines 30 to 34; the flags are pairs of regional indicators, two code units each\<close>
  "targetLanguages =
     [\<lparr>code = str ''en'', name = str ''English'',
       flag = [0xD83C, 0xDDFA, 0xD83C, 0xDDF8]\<rparr>,
      \<lparr>code = str ''es'', name = str ''Espa'' @ [0x00F1] @ str ''ol'',
       flag = [0xD83C, 0xDDF2, 0xD83C, 0xDDFD]\<rparr>,
      \<lparr>code = str ''de'', name = str ''Deutsch'',
       flag = [0xD83C, 0xDDE9, 0xD83C, 0xDDEA]\<rparr>]"

definition SOURCE_BASE :: jsstring where
  "SOURCE_BASE = str ''public/locales''"

definition ENGLISH_BASE :: jsstring where
  "ENGLISH_BASE = SOURCE_BASE @ str ''/en''"

definition TRANSLATION_BATCH_SIZE :: nat where
  "TRANSLATION_BATCH_SIZE = 100"

subsection \<open>Lines 70 to 83: the target file is made to exist\<close>

definition fileExists :: "jsstring \<Rightarrow> world \<Rightarrow> bool \<times> world" where
  \<comment> \<open>\<^verbatim>\<open>!!(await fs.stat(path).catch((_) => false))\<close>\<close>
  "fileExists p w = (case fs_stat p w of (Inl e, w1) \<Rightarrow> (False, w1) | (Inr s, w1) \<Rightarrow> (True, w1))"

definition ensureDir :: "jsstring \<Rightarrow> world \<Rightarrow> world" where
  \<comment> \<open>lines 74 to 78: the \<^verbatim>\<open>catch\<close> block is empty, an error of \<^verbatim>\<open>mkdir\<close> is dropped\<close>
  "ensureDir dir w =
     (case fileExists dir w of (dirExists, w1) \<Rightarrow>
        if \<not> dirExists then snd (fs_mkdir dir w1) else w1)"

definition ensureLanguageFileExists :: "jsstring \<Rightarrow> jsstring \<Rightarrow> unit io" where
  \<comment> \<open>lines 80 to 82: the write is outside any \<^verbatim>\<open>try\<close>\<close>
  "ensureLanguageFileExists dir file w =
     (case fileExists file (ensureDir dir w) of (exists, w1) \<Rightarrow>
        if \<not> exists then fs_writeFile file (JSON_stringify []) w1 else (Inr (), w1))"

subsection \<open>Lines 132 to 147: one key is translated\<close>

text \<open>
  \<^verbatim>\<open>runTranslation\<close> runs in two parts. The first, up to the \<^verbatim>\<open>await\<close> of line 135, issues
  the call; the second runs when the call has settled: lines 140 to 143 on an answer, the
  \<^verbatim>\<open>catch\<close> block on a rejection, which leaves the object as it is (the error goes to the
  console only).
\<close>

definition runTranslation_call :: "phrases \<Rightarrow> language \<Rightarrow> jsstring \<Rightarrow> world \<Rightarrow> nat \<times> world" where
  \<comment> \<open>lines 133 to 138; the result is the number of the call\<close>
  "runTranslation_call sourcePhrases targetLanguage key w =
     (let v = or_empty (get_prop sourcePhrases key)
      in (length (translate_calls w), emit (Translate v (str ''en'') (code targetLanguage)) w))"

definition runTranslation_settled ::
  "translate \<Rightarrow> phrases \<Rightarrow> language \<Rightarrow> nat \<times> jsstring \<Rightarrow> phrases \<times> world \<Rightarrow> phrases \<times> world" where
  \<comment> \<open>lines 140 to 146, for the call number \<open>n\<close>, issued for \<open>key\<close>; the state is the
      object \<^verbatim>\<open>targetPhrases\<close> and the world\<close>
  "runTranslation_settled translate sourcePhrases targetLanguage = (\<lambda>(n, key) (targetPhrases, w).
     let answer = translate n (or_empty (get_prop sourcePhrases key)) (str ''en'')
                    (code targetLanguage);
         w1 = emit (Settled n answer) w
     in case answer of
          Inr translation \<Rightarrow> (set_prop key (replaceAll_gt_ws translation) targetPhrases, w1)
        | Inl err \<Rightarrow> (targetPhrases, w1))"

definition runTranslation ::
  "translate \<Rightarrow> phrases \<Rightarrow> language \<Rightarrow> jsstring \<Rightarrow> phrases \<times> world \<Rightarrow> phrases \<times> world" where
  \<comment> \<open>the function called for one key and awaited on its own\<close>
  "runTranslation translate sourcePhrases targetLanguage key = (\<lambda>(targetPhrases, w).
     case runTranslation_call sourcePhrases targetLanguage key w of (n, w1) \<Rightarrow>
       runTranslation_settled translate sourcePhrases targetLanguage (n, key) (targetPhrases, w1))"

subsection \<open>Lines 151 to 161: the batching loop\<close>

fun issue_all ::
  "(jsstring \<Rightarrow> world \<Rightarrow> nat \<times> world) \<Rightarrow> jsstring list \<Rightarrow> world
     \<Rightarrow> (nat \<times> jsstring) list \<times> world" where
  \<comment> \<open>\<^verbatim>\<open>batch.map(runTranslation)\<close>: every call of the batch is issued, in the order of the
      batch, before any of them settles; the result lists the pending calls\<close>
  "issue_all call [] w = ([], w)"
| "issue_all call (key # batch) w =
     (case call key w of (n, w1) \<Rightarrow>
      case issue_all call batch w1 of (pending, w2) \<Rightarrow> ((n, key) # pending, w2))"

definition settle_order :: "world \<Rightarrow> (nat \<times> jsstring) list \<Rightarrow> (nat \<times> jsstring) list" where
  \<comment> \<open>the pending calls in the order in which the world lets them settle\<close>
  "settle_order w pending = sort_key (\<lambda>(n, key). arrival w n) pending"

definition Promise_all_map ::
  "(jsstring \<Rightarrow> world \<Rightarrow> nat \<times> world)
     \<Rightarrow> (nat \<times> jsstring \<Rightarrow> phrases \<times> world \<Rightarrow> phrases \<times> world)
     \<Rightarrow> jsstring list \<Rightarrow> phrases \<times> world \<Rightarrow> phrases \<times> world" where
  \<comment> \<open>\<^verbatim>\<open>await Promise.all(batch.map(f))\<close>, with \<open>f\<close> given by its two parts: the calls are
      issued, and the \<^verbatim>\<open>await\<close> ends when every one of them has settled and the second part
      of \<open>f\<close> has run for it\<close>
  "Promise_all_map call settled batch = (\<lambda>(targetPhrases, w).
     case issue_all call batch w of (pending, w1) \<Rightarrow>
       fold settled (settle_order w pending) (targetPhrases, w1))"

function batch_loop ::
  "translate \<Rightarrow> phrases \<Rightarrow> language \<Rightarrow> jsstring list \<Rightarrow> phrases \<times> world \<Rightarrow> phrases \<times> world" where
  "batch_loop translate sourcePhrases targetLanguage missingPhrases (targetPhrases, w) =
     (if missingPhrases = [] then (targetPhrases, w)
      else
        let w1 = emit (BatchLog (code targetLanguage)
                         (length missingPhrases div TRANSLATION_BATCH_SIZE + 1)) w;
            batch = take TRANSLATION_BATCH_SIZE missingPhrases;
            rest = drop TRANSLATION_BATCH_SIZE missingPhrases
        in batch_loop translate sourcePhrases targetLanguage rest
             (Promise_all_map (runTranslation_call sourcePhrases targetLanguage)
                (runTranslation_settled translate sourcePhrases targetLanguage) batch
                (targetPhrases, w1)))"
  by pat_completeness auto
termination
  by (relation "measure (\<lambda>(t, s, l, missingPhrases, st). length missingPhrases)")
     (auto simp: TRANSLATION_BATCH_SIZE_def)

subsection \<open>Lines 98 to 167: one target language of one source file\<close>

definition deletePhrases_of :: "phrases \<Rightarrow> phrases \<Rightarrow> jsstring list" where
  \<comment> \<open>lines 109 to 112\<close>
  "deletePhrases_of sourcePhrases targetPhrases =
     difference (Object_keys targetPhrases) (Object_keys sourcePhrases)"

definition missingPhrases_of :: "phrases \<Rightarrow> phrases \<Rightarrow> jsstring list" where
  \<comment> \<open>lines 121 to 124\<close>
  "missingPhrases_of sourcePhrases targetPhrases =
     difference (Object_keys sourcePhrases) (Object_keys targetPhrases)"

definition deleteStep :: "jsstring \<Rightarrow> phrases \<Rightarrow> phrases \<Rightarrow> phrases io" where
  \<comment> \<open>lines 109 to 119; the result is the object \<^verbatim>\<open>targetPhrases\<close> after the deletions\<close>
  "deleteStep targetFile sourcePhrases targetPhrases w =
     (let deletePhrases = deletePhrases_of sourcePhrases targetPhrases in
      if deletePhrases \<noteq> [] then
        let targetPhrases1 = fold delete_prop deletePhrases targetPhrases in
        case Bun_write targetFile (JSON_stringify targetPhrases1) w of
          (Inl e, w1) \<Rightarrow> (Inl e, w1)
        | (Inr u, w1) \<Rightarrow> (Inr targetPhrases1, w1)
      else (Inr targetPhrases, w))"

definition addStep ::
  "translate \<Rightarrow> phrases \<Rightarrow> language \<Rightarrow> phrases \<Rightarrow> phrases io" where
  \<comment> \<open>lines 121 to 166: both writes of lines 165 and 166 are commented out in the source,
      so nothing is written after the loop\<close>
  "addStep translate sourcePhrases targetLanguage targetPhrases w =
     (let missingPhrases = missingPhrases_of sourcePhrases targetPhrases in
      if missingPhrases = [] then (Inr targetPhrases, w)
      else
        case batch_loop translate sourcePhrases targetLanguage missingPhrases (targetPhrases, w) of
          (targetPhrases1, w1) \<Rightarrow> (Inr targetPhrases1, w1))"

definition targetPath :: "language \<Rightarrow> jsstring \<Rightarrow> jsstring \<times> jsstring" where
  \<comment> \<open>lines 99 and 100: \<^verbatim>\<open>targetDir\<close> and \<^verbatim>\<open>targetFile\<close>\<close>
  "targetPath targetLanguage sourceFile =
     (let targetDir = SOURCE_BASE @ str ''/'' @ code targetLanguage
      in (targetDir, targetDir @ str ''/'' @ sourceFile))"

definition targetLanguageTask ::
  "translate \<Rightarrow> phrases \<Rightarrow> jsstring \<Rightarrow> language \<Rightarrow> phrases io" where
  \<comment> \<open>The callback of line 98. An error ends the callback where it is raised. The result
      is the object \<^verbatim>\<open>targetPhrases\<close> as the callback leaves it (line 163 prints it).\<close>
  "targetLanguageTask translate sourcePhrases sourceFile targetLanguage w =
     (case targetPath targetLanguage sourceFile of (targetDir, targetFile) \<Rightarrow>
      case ensureLanguageFileExists targetDir targetFile w of
        (Inl e, w1) \<Rightarrow> (Inl e, w1)
      | (Inr u, w1) \<Rightarrow>
          (case readJSONFile targetFile w1 of
             (Inl e, w2) \<Rightarrow> (Inl e, w2)
           | (Inr targetPhrases, w2) \<Rightarrow>
               (case deleteStep targetFile sourcePhrases targetPhrases w2 of
                  (Inl e, w3) \<Rightarrow> (Inl e, w3)
                | (Inr targetPhrases1, w3) \<Rightarrow>
                    addStep translate sourcePhrases targetLanguage targetPhrases1 w3)))"

subsection \<open>Line 98: the passes of one source file\<close>

text \<open>
  \<^verbatim>\<open>targetLanguages.forEach\<close> calls the callback once for every descriptor and awaits none
  of the calls: the passes of a source file run interleaved, each on the directory and the
  file of its own language. Only the single pass is modelled; of the loop, the list of the
  passes it starts.
\<close>

definition passes :: "translate \<Rightarrow> phrases \<Rightarrow> jsstring \<Rightarrow> (phrases io) list" where
  "passes translate sourcePhrases sourceFile =
     map (targetLanguageTask translate sourcePhrases sourceFile) targetLanguages"

section \<open>Notions for the statements\<close>

definition call_of :: "phrases \<Rightarrow> language \<Rightarrow> jsstring \<Rightarrow> event" where
  \<comment> \<open>the call that \<open>runTranslation\<close> issues for a key (lines 133 to 138)\<close>
  "call_of sourcePhrases targetLanguage key =
     Translate (or_empty (get_prop sourcePhrases key)) (str ''en'') (code targetLanguage)"

definition answer_of ::
  "translate \<Rightarrow> phrases \<Rightarrow> language \<Rightarrow> nat \<Rightarrow> jsstring \<Rightarrow> error + jsstring" where
  \<comment> \<open>the answer of the client to that call when \<open>n\<close> calls were issued before\<close>
  "answer_of translate sourcePhrases targetLanguage n key =
     translate n (or_empty (get_prop sourcePhrases key)) (str ''en'') (code targetLanguage)"

definition nth_batch :: "nat \<Rightarrow> jsstring list \<Rightarrow> jsstring list" where
  \<comment> \<open>the keys that iteration \<open>i\<close> of the loop (counted from 0) splices off\<close>
  "nth_batch i missingPhrases =
     take TRANSLATION_BATCH_SIZE (drop (i * TRANSLATION_BATCH_SIZE) missingPhrases)"

definition iterations :: "nat \<Rightarrow> nat" where
  \<comment> \<open>the number of batches of size \<open>TRANSLATION_BATCH_SIZE\<close> that \<open>n\<close> keys fill\<close>
  "iterations n = (n + (TRANSLATION_BATCH_SIZE - 1)) div TRANSLATION_BATCH_SIZE"

definition pending_of :: "nat \<Rightarrow> jsstring list \<Rightarrow> nat \<Rightarrow> (nat \<times> jsstring) list" where
  \<comment> \<open>the calls of iteration \<open>i\<close> with their numbers, when \<open>n0\<close> calls were issued before
      the loop: the key at position \<open>p\<close> of the list gets the call number \<open>n0 + p\<close>\<close>
  "pending_of n0 missingPhrases i =
     zip [n0 + i * TRANSLATION_BATCH_SIZE ..<
          n0 + i * TRANSLATION_BATCH_SIZE + length (nth_batch i missingPhrases)]
         (nth_batch i missingPhrases)"

definition settled_event ::
  "translate \<Rightarrow> phrases \<Rightarrow> language \<Rightarrow> nat \<times> jsstring \<Rightarrow> event" where
  \<comment> \<open>the record of a call that settles\<close>
  "settled_event translate sourcePhrases targetLanguage =
     (\<lambda>(n, key). Settled n (answer_of translate sourcePhrases targetLanguage n key))"

definition iteration_events ::
  "translate \<Rightarrow> phrases \<Rightarrow> language \<Rightarrow> world \<Rightarrow> jsstring list \<Rightarrow> nat \<Rightarrow> event list" where
  \<comment> \<open>what iteration \<open>i\<close> of the loop, started in the world \<open>w\<close>, adds to the trace: the
      printed line, then the calls of its batch, then the records of these calls as they
      settle\<close>
  "iteration_events translate sourcePhrases targetLanguage w missingPhrases i =
     BatchLog (code targetLanguage)
       ((length missingPhrases - i * TRANSLATION_BATCH_SIZE) div TRANSLATION_BATCH_SIZE + 1)
     # map (call_of sourcePhrases targetLanguage) (nth_batch i missingPhrases)
     @ map (settled_event translate sourcePhrases targetLanguage)
         (settle_order w (pending_of (length (translate_calls w)) missingPhrases i))"

definition batch_world ::
  "translate \<Rightarrow> phrases \<Rightarrow> language \<Rightarrow> jsstring list \<Rightarrow> world \<Rightarrow> world" where
  \<comment> \<open>the world after the first iteration of the loop\<close>
  "batch_world translate S L ms w =
     w\<lparr>trace := trace w @ iteration_events translate S L w ms 0\<rparr>"

section \<open>Concrete inputs\<close>

text \<open>The inputs at which the theorems below are evaluated.\<close>

definition lang_es :: language where
  "lang_es = targetLanguages ! 1"

definition world_empty :: world where
  \<comment> \<open>a working directory with nothing in it\<close>
  "world_empty = \<lparr>dirs = {}, files = Map.empty, trace = [], arrival = (\<lambda>n. 0)\<rparr>"

definition title_phrases :: phrases where
  "title_phrases = [(str ''title'', str ''<b>Hello</b>'')]"

definition plain_phrases :: phrases where
  \<comment> \<open>a phrase with tags and a phrase without\<close>
  "plain_phrases = [(str ''title'', str ''<b>Hello</b>''), (str ''greeting'', str ''Hello'')]"

definition tab_translation :: jsstring where
  \<comment> \<open>a tabulator follows the tag\<close>
  "tab_translation = str ''<b>'' @ [0x0009] @ str ''Hola</b>''"

definition translate_tab :: translate where
  "translate_tab n text from to = Inr tab_translation"

definition translate_spaced :: translate where
  \<comment> \<open>a client that puts a space after every tag\<close>
  "translate_spaced n text from to =
     (if text = str ''<b>Hello</b>'' then Inr (str ''<b> Hola</b> <i>!</i>'')
      else Inr (str ''Hola''))"

definition path_es_dir :: jsstring where
  "path_es_dir = str ''public/locales/es''"
definition path_es_translation :: jsstring where
  "path_es_translation = str ''public/locales/es/translation.json''"

definition scenario_source :: phrases where
  \<comment> \<open>the source mapping of the scenario of the specification\<close>
  "scenario_source = [(str ''hello'', str ''Hello''), (str ''bye'', str ''Bye'')]"

definition scenario_target :: phrases where
  \<comment> \<open>its Spanish target mapping\<close>
  "scenario_target = [(str ''hello'', str ''Hola''), (str ''old'', str ''Viejo'')]"

definition path_en_translation :: jsstring where
  "path_en_translation = str ''public/locales/en/translation.json''"

definition world_scenario :: world where
  \<comment> \<open>the scenario on disk\<close>
  "world_scenario =
     \<lparr>dirs = {str ''public'', str ''public/locales'', str ''public/locales/en'',
              str ''public/locales/es''},
      files = [path_en_translation \<mapsto> JsonObject scenario_source,
               path_es_translation \<mapsto> JsonObject scenario_target],
      trace = [], arrival = (\<lambda>n. 0)\<rparr>"

definition translate_bye :: translate where
  \<comment> \<open>a client that knows one phrase and rejects every other call\<close>
  "translate_bye n text from to =
     (if text = str ''Bye'' \<and> from = str ''en'' \<and> to = str ''es'' then Inr (str ''Adios'')
      else Inl ProviderError)"

definition lang_en :: language where
  "lang_en = targetLanguages ! 0"

definition lang_de :: language where
  "lang_de = targetLanguages ! 2"

definition path_de_translation :: jsstring where
  "path_de_translation = str ''public/locales/de/translation.json''"

definition three_phrases :: phrases where
  \<comment> \<open>a source mapping with three keys\<close>
  "three_phrases =
     [(str ''hello'', str ''Hello''), (str ''bye'', str ''Bye''), (str ''thanks'', str ''Thanks'')]"

definition translate_not_bye :: translate where
  \<comment> \<open>a client that rejects one phrase and puts a tag and a space before every other\<close>
  "translate_not_bye n text from to =
     (if text = str ''Bye'' then Inl ProviderError else Inr (str ''<p> '' @ text))"

definition translate_tagged :: translate where
  \<comment> \<open>a client that always answers\<close>
  "translate_tagged n text from to = Inr (to @ str '':'' @ text)"

definition world_es_empty :: world where
  \<comment> \<open>the Spanish file exists and holds the empty mapping\<close>
  "world_es_empty =
     \<lparr>dirs = {str ''public'', str ''public/locales'', str ''public/locales/es''},
      files = [path_es_translation \<mapsto> JsonObject []],
      trace = [], arrival = (\<lambda>n. 0)\<rparr>"

definition target_in_sync :: phrases where
  \<comment> \<open>a target with the keys of the scenario source, in another order\<close>
  "target_in_sync = [(str ''bye'', str ''Adios''), (str ''hello'', str ''Hola'')]"

definition world_in_sync :: world where
  \<comment> \<open>the Spanish file holds that target\<close>
  "world_in_sync =
     \<lparr>dirs = {str ''public'', str ''public/locales'', str ''public/locales/es''},
      files = [path_es_translation \<mapsto> JsonObject target_in_sync],
      trace = [], arrival = (\<lambda>n. 0)\<rparr>"

definition proto_phrases :: phrases where
  \<comment> \<open>what \<^verbatim>\<open>JSON.parse\<close> makes of a file with the key \<^verbatim>\<open>__proto__\<close>\<close>
  "proto_phrases = [(str ''a'', str ''A''), (PROTO, str ''Proto''), (str ''b'', str ''B'')]"

definition translate_not_b :: translate where
  \<comment> \<open>a client that rejects one phrase and answers every other\<close>
  "translate_not_b n text from to =
     (if text = str ''B'' then Inl ProviderError else Inr (to @ str '':'' @ text))"

definition world_late :: world where
  \<comment> \<open>as \<open>world_es_empty\<close>, but of the first three calls a later one settles earlier\<close>
  "world_late = world_es_empty\<lparr>arrival := (\<lambda>n. 2 - n)\<rparr>"

definition numbered_key :: "nat \<Rightarrow> jsstring" where
  \<comment> \<open>\<^verbatim>\<open>key000\<close>, \<^verbatim>\<open>key001\<close> and so on\<close>
  "numbered_key n =
     str ''key'' @ [0x0030 + of_nat (n div 100), 0x0030 + of_nat (n div 10 mod 10),
                    0x0030 + of_nat (n mod 10)]"

definition keys_101 :: "jsstring list" where
  "keys_101 = map numbered_key [0..<101]"

definition phrases_101 :: phrases where
  \<comment> \<open>a source mapping with 101 keys\<close>
  "phrases_101 = map (\<lambda>n. (numbered_key n, str ''Hello'')) [0..<101]"

section \<open>Auxiliary facts\<close>

subsection \<open>Lists and objects\<close>

lemma set_difference_loop: "set (difference_loop xs s) = set xs - set s"
  by (induction xs arbitrary: s) auto

lemma distinct_difference_loop: "distinct (difference_loop xs s)"
  by (induction xs arbitrary: s) (auto simp: set_difference_loop)

lemma set_difference: "set (difference xs ys) = set xs - set ys"
  by (simp add: difference_def set_difference_loop)

lemma distinct_difference: "distinct (difference xs ys)"
  by (simp add: difference_def distinct_difference_loop)

lemma keys_delete_prop: "set (Object_keys (delete_prop k obj)) = set (Object_keys obj) - {k}"
  by (induction obj) (auto simp: Object_keys_def delete_prop_def)

lemma keys_fold_delete_prop:
  "set (Object_keys (fold delete_prop ks obj)) = set (Object_keys obj) - set ks"
  by (induction ks arbitrary: obj) (auto simp: keys_delete_prop)

lemma map_of_replace_other:
  "k' \<noteq> key \<Longrightarrow> map_of (replace_prop key v obj) k' = map_of obj k'"
  by (induction obj) auto

lemma map_of_replace_own:
  "key \<in> fst ` set obj \<Longrightarrow> map_of (replace_prop key v obj) key = Some v"
  by (induction obj) force+

lemma map_of_insert_index:
  "key \<notin> fst ` set obj \<Longrightarrow> map_of (insert_index n key v obj) k' =
     (if k' = key then Some v else map_of obj k')"
proof (induction obj)
  case Nil
  show ?case by simp
next
  case (Cons a obj)
  obtain k x where a: "a = (k, x)" by (cases a)
  have "key \<noteq> k" and "key \<notin> fst ` set obj"
    using Cons.prems a by auto
  then show ?case
    using a Cons.IH by (cases "array_index k") auto
qed

lemma map_of_snoc:
  "key \<notin> fst ` set obj \<Longrightarrow> map_of (obj @ [(key, v)]) k' =
     (if k' = key then Some v else map_of obj k')"
proof (induction obj)
  case Nil
  show ?case by simp
next
  case (Cons a obj)
  obtain k x where a: "a = (k, x)" by (cases a)
  have "key \<noteq> k" and "key \<notin> fst ` set obj"
    using Cons.prems a by auto
  then show ?case
    using a Cons.IH by auto
qed

lemma get_prop_None: "k \<notin> set (Object_keys T) \<Longrightarrow> get_prop T k = None"
  by (simp add: get_prop_def Object_keys_def map_of_eq_None_iff)

lemma get_prop_own: "k \<in> set (Object_keys T) \<Longrightarrow> get_prop T k \<noteq> None"
  by (simp add: get_prop_def Object_keys_def map_of_eq_None_iff)

lemma get_prop_set_prop:
  "get_prop (set_prop k v obj) k' =
     (if k' = k then (if k = PROTO \<and> get_prop obj k = None then None else Some v)
      else get_prop obj k')"
proof (cases "k \<in> set (Object_keys obj)")
  case True
  then have "get_prop obj k \<noteq> None"
    by (rule get_prop_own)
  moreover have "set_prop k v obj = replace_prop k v obj"
    using True by (simp add: set_prop_def)
  moreover have "k \<in> fst ` set obj"
    using True by (simp add: Object_keys_def)
  ultimately show ?thesis
    by (auto simp: get_prop_def map_of_replace_other map_of_replace_own)
next
  case False
  then have none: "get_prop obj k = None"
    by (rule get_prop_None)
  have notin: "k \<notin> fst ` set obj"
    using False by (simp add: Object_keys_def)
  show ?thesis
  proof (cases "k = PROTO")
    case True
    then show ?thesis
      using False none by (simp add: set_prop_def)
  next
    case notproto: False
    show ?thesis
    proof (cases "array_index k")
      case None
      then have "set_prop k v obj = obj @ [(k, v)]"
        using False notproto by (simp add: set_prop_def)
      then show ?thesis
        using notproto map_of_snoc [OF notin, of v k'] by (simp add: get_prop_def)
    next
      case (Some n)
      then have "set_prop k v obj = insert_index n k v obj"
        using False notproto by (simp add: set_prop_def)
      then show ?thesis
        using notproto map_of_insert_index [OF notin, of n v k'] by (simp add: get_prop_def)
    qed
  qed
qed

subsection \<open>The replacement of line 143\<close>

lemma GT_not_ws: "\<not> isWhiteSpace GT"
  by (simp add: isWhiteSpace_def GT_def)

lemma replaceAll_drop_ws:
  "(cs \<noteq> [] \<longrightarrow> \<not> (prev = GT \<and> isWhiteSpace (hd cs)))
     \<Longrightarrow> replaceAll_gt_ws cs = drop_ws_after_gt prev cs"
proof (induction cs arbitrary: prev rule: replaceAll_gt_ws.induct)
  case (1 a b cs)
  show ?case
  proof (cases "a = GT \<and> isWhiteSpace b")
    case True
    then have "b \<noteq> GT" using GT_not_ws by auto
    then have "replaceAll_gt_ws cs = drop_ws_after_gt b cs"
      using "1.IH"(1) [of b] True by simp
    then show ?thesis using True "1.prems" by simp
  next
    case False
    then have "replaceAll_gt_ws (b # cs) = drop_ws_after_gt a (b # cs)"
      using "1.IH"(2) [of a] by simp
    then show ?thesis using False "1.prems" by auto
  qed
qed simp_all

lemma replaceAll_gt_ws_free: "gt_ws_free cs \<Longrightarrow> replaceAll_gt_ws cs = cs"
  by (induction cs rule: replaceAll_gt_ws.induct) auto

subsection \<open>The file system\<close>

lemma emit_simps [simp]:
  "dirs (emit e w) = dirs w" "files (emit e w) = files w" "trace (emit e w) = trace w @ [e]"
  "arrival (emit e w) = arrival w"
  by (simp_all add: emit_def)

lemma path_exists_emit [simp]: "path_exists (emit e w) p = path_exists w p"
  by (simp add: path_exists_def)

lemma is_dir_emit [simp]: "is_dir (emit e w) p = is_dir w p"
  by (simp add: is_dir_def)

lemma fileExists_eq: "fileExists p w = (path_exists w p, emit (Stat p) w)"
  by (simp add: fileExists_def fs_stat_def)

lemma fst_fs_mkdir_emit [simp]: "fst (fs_mkdir p (emit e w)) = fst (fs_mkdir p w)"
  by (simp add: fs_mkdir_def Let_def)

lemma fst_fs_writeFile_cong:
  "dirs w = dirs w' \<Longrightarrow> fst (fs_writeFile p c w) = fst (fs_writeFile p c w')"
  by (simp add: fs_writeFile_def Let_def is_dir_def)

lemma files_ensureDir [simp]: "files (ensureDir dir w) = files w"
  by (simp add: ensureDir_def fileExists_eq fs_mkdir_def Let_def split: sum.splits)

lemma dirs_ensureDir:
  "dirs (ensureDir dir w) =
     (if \<not> path_exists w dir \<and> is_dir w (dirname dir) then insert dir (dirs w) else dirs w)"
  by (simp add: ensureDir_def fileExists_eq fs_mkdir_def Let_def)

lemma dirs_ensureDir_failed:
  "fst (fs_mkdir dir w) = Inl e \<Longrightarrow> dirs (ensureDir dir w) = dirs w"
  by (auto simp: dirs_ensureDir fs_mkdir_def Let_def split: if_splits)

lemma trace_ensureDir:
  "trace (ensureDir dir w) =
     trace w @ Stat dir # (if path_exists w dir then [] else [Mkdir dir])"
  by (simp add: ensureDir_def fileExists_eq fs_mkdir_def Let_def)

lemma path_exists_ensureDir_mono: "path_exists w p \<Longrightarrow> path_exists (ensureDir dir w) p"
  by (auto simp: path_exists_def dirs_ensureDir)

lemma ensure_eq:
  "ensureLanguageFileExists dir file w =
     (if path_exists (ensureDir dir w) file then (Inr (), emit (Stat file) (ensureDir dir w))
      else fs_writeFile file (JSON_stringify []) (emit (Stat file) (ensureDir dir w)))"
  by (simp add: ensureLanguageFileExists_def fileExists_eq)

lemma fst_fs_writeFile_emit [simp]: "fst (fs_writeFile p c (emit e w)) = fst (fs_writeFile p c w)"
  by (simp add: fs_writeFile_def Let_def)

subsection \<open>One key, one batch, the loop\<close>

lemma translate_calls_emit:
  "translate_calls (emit e w) = translate_calls w @ (if is_Translate e then [e] else [])"
  by (simp add: translate_calls_def)

lemma is_Translate_call_of [simp]: "is_Translate (call_of S L k)"
  by (simp add: call_of_def)

lemma is_Translate_settled_event [simp]: "\<not> is_Translate (settled_event translate S L p)"
  by (cases p) (simp add: settled_event_def)

lemma runTranslation_call_eq:
  "runTranslation_call S L key w = (length (translate_calls w), emit (call_of S L key) w)"
  by (simp add: runTranslation_call_def call_of_def)

lemma runTranslation_settled_eq:
  "runTranslation_settled translate S L (n, key) (T, w) =
     (case answer_of translate S L n key of
        Inr t \<Rightarrow> set_prop key (replaceAll_gt_ws t) T
      | Inl e \<Rightarrow> T,
      emit (settled_event translate S L (n, key)) w)"
  by (simp add: runTranslation_settled_def answer_of_def settled_event_def Let_def
        split: sum.splits)

lemma runTranslation_eq:
  "runTranslation translate S L key (T, w) =
     (case answer_of translate S L (length (translate_calls w)) key of
        Inr t \<Rightarrow> set_prop key (replaceAll_gt_ws t) T
      | Inl e \<Rightarrow> T,
      emit (settled_event translate S L (length (translate_calls w), key))
        (emit (call_of S L key) w))"
  by (simp add: runTranslation_def runTranslation_call_eq runTranslation_settled_eq)

lemma issue_all_Cons:
  "issue_all (runTranslation_call S L) (key # batch) w =
     (case issue_all (runTranslation_call S L) batch (emit (call_of S L key) w) of
        (pending, w2) \<Rightarrow> ((length (translate_calls w), key) # pending, w2))"
  by (simp only: issue_all.simps runTranslation_call_eq prod.case)

lemma upt_shift: "[n..<n + Suc m] = n # [Suc n..<Suc n + m]"
  by (simp add: upt_conv_Cons del: upt_Suc)

lemma issue_all_eq:
  "issue_all (runTranslation_call S L) batch w =
     (zip [length (translate_calls w) ..< length (translate_calls w) + length batch] batch,
      w\<lparr>trace := trace w @ map (call_of S L) batch\<rparr>)"
proof (induction batch arbitrary: w)
  case Nil
  show ?case by simp
next
  case (Cons key batch)
  let ?w1 = "emit (call_of S L key) w"
  have n1: "length (translate_calls ?w1) = Suc (length (translate_calls w))"
    by (simp add: translate_calls_emit)
  have "issue_all (runTranslation_call S L) batch ?w1 =
          (zip [Suc (length (translate_calls w)) ..<
                Suc (length (translate_calls w)) + length batch] batch,
           ?w1\<lparr>trace := trace ?w1 @ map (call_of S L) batch\<rparr>)"
    using Cons.IH [of ?w1] by (simp only: n1)
  then have "issue_all (runTranslation_call S L) (key # batch) w =
          ((length (translate_calls w), key)
             # zip [Suc (length (translate_calls w)) ..<
                    Suc (length (translate_calls w)) + length batch] batch,
           ?w1\<lparr>trace := trace ?w1 @ map (call_of S L) batch\<rparr>)"
    by (simp only: issue_all_Cons prod.case)
  moreover have "[length (translate_calls w) ..<
                  length (translate_calls w) + length (key # batch)]
                   = length (translate_calls w)
                     # [Suc (length (translate_calls w)) ..<
                        Suc (length (translate_calls w)) + length batch]"
    by (simp add: upt_conv_Cons del: upt_Suc)
  moreover have "?w1\<lparr>trace := trace ?w1 @ map (call_of S L) batch\<rparr>
                   = w\<lparr>trace := trace w @ map (call_of S L) (key # batch)\<rparr>"
    by (simp add: emit_def)
  ultimately show ?case
    by (simp only: zip_Cons_Cons)
qed

lemma fold_settled_snd:
  "snd (fold (runTranslation_settled translate S L) ps (T, w))
     = w\<lparr>trace := trace w @ map (settled_event translate S L) ps\<rparr>"
proof (induction ps arbitrary: T w)
  case Nil
  show ?case by simp
next
  case (Cons p ps)
  obtain n key where p: "p = (n, key)" by (cases p)
  show ?case
    by (simp add: p runTranslation_settled_eq Cons.IH emit_def)
qed

lemma fold_settled_frame:
  "k \<notin> snd ` set ps \<Longrightarrow>
   get_prop (fst (fold (runTranslation_settled translate S L) ps (T, w))) k = get_prop T k"
proof (induction ps arbitrary: T w)
  case Nil
  show ?case by simp
next
  case (Cons p ps)
  obtain n key where p: "p = (n, key)" by (cases p)
  have "key \<noteq> k" and "k \<notin> snd ` set ps"
    using Cons.prems p by auto
  then show ?case
    by (simp add: p runTranslation_settled_eq Cons.IH get_prop_set_prop split: sum.splits)
qed

lemma fold_settled_get:
  "distinct (map snd ps) \<Longrightarrow> (n, k) \<in> set ps \<Longrightarrow>
   get_prop (fst (fold (runTranslation_settled translate S L) ps (T, w))) k =
     (case answer_of translate S L n k of
        Inr t \<Rightarrow> if k = PROTO \<and> get_prop T k = None then None else Some (replaceAll_gt_ws t)
      | Inl e \<Rightarrow> get_prop T k)"
proof (induction ps arbitrary: T w)
  case Nil
  then show ?case by simp
next
  case (Cons p ps)
  obtain m key where p: "p = (m, key)" by (cases p)
  have d: "distinct (map snd ps)" and fresh: "key \<notin> snd ` set ps"
    using Cons.prems(1) p by auto
  show ?case
  proof (cases "(n, k) = p")
    case True
    then have "k \<notin> snd ` set ps" and "m = n" and "key = k"
      using fresh p by auto
    then show ?thesis
      by (simp add: p runTranslation_settled_eq fold_settled_frame get_prop_set_prop
            split: sum.splits)
  next
    case False
    then have mem: "(n, k) \<in> set ps"
      using Cons.prems(2) by simp
    then have ne: "k \<noteq> key"
      using fresh by force
    let ?T1 = "case answer_of translate S L m key of
                 Inr t \<Rightarrow> set_prop key (replaceAll_gt_ws t) T | Inl e \<Rightarrow> T"
    have keep: "get_prop ?T1 k = get_prop T k"
      using ne by (simp add: get_prop_set_prop split: sum.splits)
    show ?thesis
      using Cons.IH [OF d mem, of ?T1 "emit (settled_event translate S L (m, key)) w"]
      by (simp add: p runTranslation_settled_eq keep cong: sum.case_cong)
  qed
qed

lemma set_settle_order [simp]: "set (settle_order w ps) = set ps"
  by (simp add: settle_order_def)

lemma length_settle_order [simp]: "length (settle_order w ps) = length ps"
  by (simp add: settle_order_def)

lemma distinct_settle_order:
  assumes "distinct (map snd ps)"
  shows "distinct (map snd (settle_order w ps))"
proof -
  have "card (set (map snd ps)) = length ps"
    using assms distinct_card [of "map snd ps"] by simp
  then have "card (set (map snd (settle_order w ps))) = length (map snd (settle_order w ps))"
    by simp
  then show ?thesis
    by (rule card_distinct)
qed

lemma Promise_all_map_eq:
  "Promise_all_map (runTranslation_call S L) (runTranslation_settled translate S L) batch (T, w) =
     fold (runTranslation_settled translate S L)
       (settle_order w
          (zip [length (translate_calls w) ..< length (translate_calls w) + length batch] batch))
       (T, w\<lparr>trace := trace w @ map (call_of S L) batch\<rparr>)"
  by (simp only: Promise_all_map_def prod.case issue_all_eq)

lemma Promise_all_map_snd:
  "snd (Promise_all_map (runTranslation_call S L) (runTranslation_settled translate S L) batch
          (T, w)) =
     w\<lparr>trace := trace w @ map (call_of S L) batch
                  @ map (settled_event translate S L)
                      (settle_order w
                         (zip [length (translate_calls w) ..<
                               length (translate_calls w) + length batch] batch))\<rparr>"
  by (simp add: Promise_all_map_eq fold_settled_snd)

lemma Promise_all_map_frame:
  assumes "k \<notin> set batch"
  shows "get_prop (fst (Promise_all_map (runTranslation_call S L)
                          (runTranslation_settled translate S L) batch (T, w))) k
           = get_prop T k"
proof -
  have "k \<notin> snd ` set (zip [length (translate_calls w) ..<
                              length (translate_calls w) + length batch] batch)"
    using assms by (auto dest: set_zip_rightD)
  then show ?thesis
    by (simp add: Promise_all_map_eq fold_settled_frame)
qed

lemma Promise_all_map_get:
  assumes "distinct batch" and "i < length batch"
  shows "get_prop (fst (Promise_all_map (runTranslation_call S L)
                          (runTranslation_settled translate S L) batch (T, w))) (batch ! i) =
     (case answer_of translate S L (length (translate_calls w) + i) (batch ! i) of
        Inr t \<Rightarrow> if batch ! i = PROTO \<and> get_prop T (batch ! i) = None then None
                 else Some (replaceAll_gt_ws t)
      | Inl e \<Rightarrow> get_prop T (batch ! i))"
proof -
  let ?n = "length (translate_calls w)"
  let ?ps = "zip [?n ..< ?n + length batch] batch"
  have "map snd ?ps = batch"
    by (simp add: map_snd_zip)
  then have d: "distinct (map snd (settle_order w ?ps))"
    using assms(1) distinct_settle_order [of ?ps w] by simp
  have "?ps ! i = (?n + i, batch ! i)"
    using assms(2) by simp
  moreover have "i < length ?ps"
    using assms(2) by simp
  ultimately have "(?n + i, batch ! i) \<in> set ?ps"
    by (metis nth_mem)
  then have mem: "(?n + i, batch ! i) \<in> set (settle_order w ?ps)"
    by simp
  show ?thesis
    using fold_settled_get [OF d mem] by (simp only: Promise_all_map_eq)
qed

declare batch_loop.simps [simp del]

lemma batch_loop_Nil: "batch_loop translate S L [] st = st"
  by (cases st) (simp add: batch_loop.simps)

lemma batch_loop_step:
  "ms \<noteq> [] \<Longrightarrow>
   batch_loop translate S L ms (T, w) =
     batch_loop translate S L (drop TRANSLATION_BATCH_SIZE ms)
       (Promise_all_map (runTranslation_call S L) (runTranslation_settled translate S L)
          (take TRANSLATION_BATCH_SIZE ms)
          (T, emit (BatchLog (code L) (length ms div TRANSLATION_BATCH_SIZE + 1)) w))"
  by (subst batch_loop.simps) (simp add: Let_def)

lemma settle_order_emit [simp]: "settle_order (emit e w) ps = settle_order w ps"
  by (simp add: settle_order_def)

lemma batch_loop_unfold:
  assumes "ms \<noteq> []"
  shows "batch_loop translate S L ms (T, w) =
     batch_loop translate S L (drop TRANSLATION_BATCH_SIZE ms)
       (fst (Promise_all_map (runTranslation_call S L) (runTranslation_settled translate S L)
               (take TRANSLATION_BATCH_SIZE ms)
               (T, emit (BatchLog (code L) (length ms div TRANSLATION_BATCH_SIZE + 1)) w)),
        batch_world translate S L ms w)"
proof -
  let ?w1 = "emit (BatchLog (code L) (length ms div TRANSLATION_BATCH_SIZE + 1)) w"
  let ?st = "Promise_all_map (runTranslation_call S L) (runTranslation_settled translate S L)
               (take TRANSLATION_BATCH_SIZE ms) (T, ?w1)"
  have "snd ?st = batch_world translate S L ms w"
    by (simp only: Promise_all_map_snd)
       (simp add: batch_world_def iteration_events_def pending_of_def nth_batch_def emit_def
          translate_calls_def settle_order_def)
  then have "?st = (fst ?st, batch_world translate S L ms w)"
    by (metis prod.collapse)
  then show ?thesis
    using batch_loop_step [OF assms, of translate S L T w] by simp
qed

lemma filter_settled [simp]:
  "filter is_Translate (map (settled_event translate S L) ps) = []"
  by (induction ps) simp_all

lemma translate_calls_batch_world:
  "translate_calls (batch_world translate S L ms w)
     = translate_calls w @ map (call_of S L) (take TRANSLATION_BATCH_SIZE ms)"
  by (simp add: batch_world_def iteration_events_def nth_batch_def translate_calls_def)

lemma arrival_batch_world [simp]: "arrival (batch_world translate S L ms w) = arrival w"
  by (simp add: batch_world_def)

lemma settle_order_batch_world [simp]:
  "settle_order (batch_world translate S L ms w) ps = settle_order w ps"
  by (simp add: settle_order_def)

lemma drop_batch_shorter: "ms \<noteq> [] \<Longrightarrow> length (drop TRANSLATION_BATCH_SIZE ms) < length ms"
  by (simp add: TRANSLATION_BATCH_SIZE_def)

lemma batch_loop_calls:
  "translate_calls (snd (batch_loop translate S L ms (T, w)))
     = translate_calls w @ map (call_of S L) ms"
proof (induction ms arbitrary: T w rule: length_induct)
  case (1 ms)
  show ?case
  proof (cases "ms = []")
    case True
    then show ?thesis by (simp add: batch_loop_Nil)
  next
    case False
    let ?b = "take TRANSLATION_BATCH_SIZE ms" and ?r = "drop TRANSLATION_BATCH_SIZE ms"
    have "map (call_of S L) ?b @ map (call_of S L) ?r = map (call_of S L) ms"
      by (simp flip: map_append)
    then show ?thesis
      using "1.IH" drop_batch_shorter [OF False]
      by (simp add: batch_loop_unfold [OF False] translate_calls_batch_world)
  qed
qed

lemma batch_loop_frame:
  "k \<notin> set ms \<Longrightarrow> get_prop (fst (batch_loop translate S L ms (T, w))) k = get_prop T k"
proof (induction ms arbitrary: T w rule: length_induct)
  case (1 ms)
  show ?case
  proof (cases "ms = []")
    case True
    then show ?thesis by (simp add: batch_loop_Nil)
  next
    case False
    have a: "k \<notin> set (take TRANSLATION_BATCH_SIZE ms)"
      using "1.prems" by (meson in_set_takeD)
    have b: "k \<notin> set (drop TRANSLATION_BATCH_SIZE ms)"
      using "1.prems" by (meson in_set_dropD)
    show ?thesis
      using "1.IH" drop_batch_shorter [OF False] a b
      by (simp add: batch_loop_unfold [OF False] Promise_all_map_frame)
  qed
qed

lemma batch_loop_get:
  "distinct ms \<Longrightarrow> i < length ms \<Longrightarrow>
   get_prop (fst (batch_loop translate S L ms (T, w))) (ms ! i) =
     (case answer_of translate S L (length (translate_calls w) + i) (ms ! i) of
        Inr t \<Rightarrow> if ms ! i = PROTO \<and> get_prop T (ms ! i) = None then None
                 else Some (replaceAll_gt_ws t)
      | Inl e \<Rightarrow> get_prop T (ms ! i))"
proof (induction ms arbitrary: T w i rule: length_induct)
  case (1 ms)
  then have ne: "ms \<noteq> []" by auto
  let ?B = TRANSLATION_BATCH_SIZE
  let ?b = "take ?B ms" and ?r = "drop ?B ms"
  let ?w1 = "emit (BatchLog (code L) (length ms div ?B + 1)) w"
  let ?T2 = "fst (Promise_all_map (runTranslation_call S L)
                    (runTranslation_settled translate S L) ?b (T, ?w1))"
  have unfold: "batch_loop translate S L ms (T, w)
                  = batch_loop translate S L ?r (?T2, batch_world translate S L ms w)"
    by (rule batch_loop_unfold [OF ne])
  have db: "distinct ?b" and dr: "distinct ?r"
    using "1.prems"(1) by simp_all
  have disj: "set ?b \<inter> set ?r = {}"
    using "1.prems"(1) by (metis append_take_drop_id distinct_append)
  show ?case
  proof (cases "i < ?B")
    case True
    then have ib: "i < length ?b" and eq: "?b ! i = ms ! i"
      using "1.prems"(2) by simp_all
    then have "ms ! i \<in> set ?b"
      by (metis nth_mem)
    then have "ms ! i \<notin> set ?r"
      using disj by blast
    then have "get_prop (fst (batch_loop translate S L ?r
                                (?T2, batch_world translate S L ms w))) (ms ! i)
                 = get_prop ?T2 (ms ! i)"
      by (rule batch_loop_frame)
    then show ?thesis
      using Promise_all_map_get [OF db ib, of S L translate T ?w1, unfolded eq]
      by (simp add: unfold translate_calls_emit)
  next
    case False
    then have ir: "i - ?B < length ?r" and eq: "?r ! (i - ?B) = ms ! i"
      using "1.prems"(2) by simp_all
    have full: "length ?b = ?B"
      using False "1.prems"(2) by simp
    have "ms ! i \<in> set ?r"
      using ir eq by (metis nth_mem)
    then have "ms ! i \<notin> set ?b"
      using disj by blast
    then have keep: "get_prop ?T2 (ms ! i) = get_prop T (ms ! i)"
      by (rule Promise_all_map_frame)
    have "get_prop (fst (batch_loop translate S L ?r (?T2, batch_world translate S L ms w)))
            (?r ! (i - ?B)) =
       (case answer_of translate S L
               (length (translate_calls (batch_world translate S L ms w)) + (i - ?B))
               (?r ! (i - ?B)) of
          Inr t \<Rightarrow> if ?r ! (i - ?B) = PROTO \<and> get_prop ?T2 (?r ! (i - ?B)) = None then None
                   else Some (replaceAll_gt_ws t)
        | Inl e \<Rightarrow> get_prop ?T2 (?r ! (i - ?B)))"
      using "1.IH" drop_batch_shorter [OF ne] dr ir by blast
    moreover have "length (translate_calls (batch_world translate S L ms w)) + (i - ?B)
                     = length (translate_calls w) + i"
      using False full by (simp add: translate_calls_batch_world)
    ultimately show ?thesis
      using keep by (simp add: unfold eq cong: sum.case_cong)
  qed
qed

subsection \<open>The iterations of the loop\<close>

lemma batches_small: "0 < n \<Longrightarrow> n \<le> 100 \<Longrightarrow> (n + 99) div 100 = (1::nat)"
  by (rule Euclidean_Rings.div_nat_eqI) simp_all

lemma batches_big: "100 \<le> n \<Longrightarrow> (n + 99) div 100 = Suc ((n - 100 + 99) div (100::nat))"
proof -
  assume "100 \<le> n"
  then have "n + 99 = (n - 100 + 99) + 100" by simp
  then have "(n + 99) div 100 = ((n - 100 + 99) + 100) div 100" by simp
  also have "\<dots> = Suc ((n - 100 + 99) div 100)"
    by (simp only: div_add_self2)
  finally show ?thesis .
qed

lemma iterations_step: "0 < n \<Longrightarrow> iterations n = Suc (iterations (n - TRANSLATION_BATCH_SIZE))"
proof (cases "n < 100")
  case True
  assume "0 < n"
  then show ?thesis
    using True batches_small [of n] by (simp add: iterations_def TRANSLATION_BATCH_SIZE_def)
next
  case False
  then show ?thesis
    using batches_big [of n] by (simp add: iterations_def TRANSLATION_BATCH_SIZE_def)
qed

lemma iterations_0 [simp]: "iterations 0 = 0"
  by (simp add: iterations_def TRANSLATION_BATCH_SIZE_def)

lemma iterations_less: "i < iterations n \<Longrightarrow> i * TRANSLATION_BATCH_SIZE < n"
proof -
  assume "i < iterations n"
  then have "Suc i \<le> (n + 99) div 100"
    by (simp add: iterations_def TRANSLATION_BATCH_SIZE_def)
  then have "Suc i * 100 \<le> n + 99"
    by (simp add: less_eq_div_iff_mult_less_eq)
  then show ?thesis by (simp add: TRANSLATION_BATCH_SIZE_def)
qed

lemma iterations_ceiling:
  "int (iterations n) = \<lceil>real n / real TRANSLATION_BATCH_SIZE\<rceil>"
proof -
  have "\<lceil>real n / real TRANSLATION_BATCH_SIZE\<rceil> = \<lceil>real_of_int (int n) / real_of_int 100\<rceil>"
    by (simp add: TRANSLATION_BATCH_SIZE_def)
  also have "\<dots> = - (- int n div 100)"
    by (rule ceiling_divide_eq_div)
  also have "\<dots> = int (iterations n)"
    unfolding iterations_def TRANSLATION_BATCH_SIZE_def by (simp add: zdiv_int)
  finally show ?thesis by simp
qed

lemma nth_batch_drop:
  "nth_batch i (drop TRANSLATION_BATCH_SIZE ms) = nth_batch (Suc i) ms"
  by (simp add: nth_batch_def add.commute)

lemma nth_batch_drop_fun:
  "(\<lambda>i. nth_batch i (drop TRANSLATION_BATCH_SIZE ms)) = (\<lambda>i. nth_batch (Suc i) ms)"
  by (rule ext) (rule nth_batch_drop)

lemma pending_of_drop:
  "pending_of (n0 + TRANSLATION_BATCH_SIZE) (drop TRANSLATION_BATCH_SIZE ms) i
     = pending_of n0 ms (Suc i)"
  by (simp add: pending_of_def nth_batch_drop ac_simps)

lemma iteration_events_drop:
  assumes "TRANSLATION_BATCH_SIZE \<le> length ms"
  shows "iteration_events translate S L (batch_world translate S L ms w)
           (drop TRANSLATION_BATCH_SIZE ms) i
         = iteration_events translate S L w ms (Suc i)"
proof -
  have "length (translate_calls (batch_world translate S L ms w))
          = length (translate_calls w) + TRANSLATION_BATCH_SIZE"
    using assms by (simp add: translate_calls_batch_world)
  then show ?thesis
    by (simp only: iteration_events_def pending_of_drop nth_batch_drop
          settle_order_batch_world)
       (simp add: ac_simps)
qed

lemma upt_0_Suc: "[0..<Suc n] = 0 # map Suc [0..<n]"
  by (simp add: upt_conv_Cons map_Suc_upt del: upt_Suc)

lemma batch_loop_trace:
  "trace (snd (batch_loop translate S L ms (T, w)))
     = trace w @ concat (map (iteration_events translate S L w ms) [0..<iterations (length ms)])"
proof (induction ms arbitrary: T w rule: length_induct)
  case (1 ms)
  show ?case
  proof (cases "ms = []")
    case True
    then show ?thesis by (simp add: batch_loop_Nil)
  next
    case False
    let ?r = "drop TRANSLATION_BATCH_SIZE ms"
    let ?bw = "batch_world translate S L ms w"
    have it: "iterations (length ms) = Suc (iterations (length ?r))"
      using False iterations_step [of "length ms"] by simp
    have rest: "map (iteration_events translate S L ?bw ?r) [0..<iterations (length ?r)]
                  = map (\<lambda>i. iteration_events translate S L w ms (Suc i))
                      [0..<iterations (length ?r)]"
    proof (cases "TRANSLATION_BATCH_SIZE \<le> length ms")
      case True
      then show ?thesis by (simp add: iteration_events_drop)
    next
      case False
      then show ?thesis by simp
    qed
    have "map (iteration_events translate S L w ms) [0..<Suc (iterations (length ?r))]
            = iteration_events translate S L w ms 0
              # map (iteration_events translate S L ?bw ?r) [0..<iterations (length ?r)]"
      by (simp only: upt_0_Suc list.map map_map o_def rest)
    moreover have "trace (snd (batch_loop translate S L ?r
                     (fst (Promise_all_map (runTranslation_call S L)
                             (runTranslation_settled translate S L)
                             (take TRANSLATION_BATCH_SIZE ms)
                        (T, emit (BatchLog (code L) (length ms div TRANSLATION_BATCH_SIZE + 1)) w)),
                      ?bw)))
            = trace ?bw
              @ concat (map (iteration_events translate S L ?bw ?r) [0..<iterations (length ?r)])"
      using "1.IH" drop_batch_shorter [OF False] by blast
    ultimately show ?thesis
      by (simp only: batch_loop_unfold [OF False] it)
         (simp add: batch_world_def del: upt_Suc)
  qed
qed

lemma concat_batches:
  "concat (map (\<lambda>i. nth_batch i ms) [0..<iterations (length ms)]) = ms"
proof (induction ms rule: length_induct)
  case (1 ms)
  show ?case
  proof (cases "ms = []")
    case True
    then show ?thesis by simp
  next
    case False
    let ?r = "drop TRANSLATION_BATCH_SIZE ms"
    have it: "iterations (length ms) = Suc (iterations (length ?r))"
      using False iterations_step [of "length ms"] by simp
    have "map (\<lambda>i. nth_batch i ms) [0..<Suc (iterations (length ?r))]
            = nth_batch 0 ms # map (\<lambda>i. nth_batch i ?r) [0..<iterations (length ?r)]"
      by (simp only: upt_0_Suc list.map map_map o_def nth_batch_drop_fun)
    moreover have "concat (map (\<lambda>i. nth_batch i ?r) [0..<iterations (length ?r)]) = ?r"
      using "1.IH" drop_batch_shorter [OF False] by blast
    ultimately show ?thesis
      by (simp only: it) (simp add: nth_batch_def del: upt_Suc)
  qed
qed

lemma nth_batch_bounds:
  assumes "i < iterations (length ms)"
  shows "nth_batch i ms \<noteq> [] \<and> length (nth_batch i ms) \<le> TRANSLATION_BATCH_SIZE"
  using iterations_less [OF assms]
  by (simp add: nth_batch_def TRANSLATION_BATCH_SIZE_def)

lemma pending_of_keys: "map snd (pending_of n0 ms i) = nth_batch i ms"
  by (simp add: pending_of_def map_snd_zip)

lemma pending_of_numbers:
  "map fst (pending_of n0 ms i)
     = [n0 + i * TRANSLATION_BATCH_SIZE ..<
        n0 + i * TRANSLATION_BATCH_SIZE + length (nth_batch i ms)]"
  by (simp add: pending_of_def map_fst_zip)

subsection \<open>The pass\<close>

lemma translate_calls_ensureDir [simp]: "translate_calls (ensureDir tdir w) = translate_calls w"
  by (simp add: translate_calls_def trace_ensureDir)

lemma fs_writeFile_calls [simp]:
  "translate_calls (snd (fs_writeFile p c w)) = translate_calls w"
  by (simp add: fs_writeFile_def Let_def translate_calls_def)

lemma Bun_write_calls [simp]:
  "translate_calls (snd (Bun_write p c w)) = translate_calls w"
  by (simp add: Bun_write_def Let_def translate_calls_def)

lemma ensure_calls [simp]:
  "translate_calls (snd (ensureLanguageFileExists tdir tfile w)) = translate_calls w"
  by (simp add: ensure_eq translate_calls_emit)

lemma readJSONFile_snd [simp]: "snd (readJSONFile p w) = emit (ReadJSON p) w"
  by (simp add: readJSONFile_def Let_def split: option.splits content.splits)

lemma deleteStep_calls [simp]:
  "translate_calls (snd (deleteStep tfile S T w)) = translate_calls w"
proof -
  have "snd (deleteStep tfile S T w) =
          (if deletePhrases_of S T \<noteq> []
           then snd (Bun_write tfile (JSON_stringify (fold delete_prop (deletePhrases_of S T) T)) w)
           else w)"
    by (simp add: deleteStep_def Let_def split: prod.splits sum.splits)
  then show ?thesis by simp
qed

lemma deleteStep_result:
  "deleteStep tfile S T w = (Inr T1, w1) \<Longrightarrow> T1 = fold delete_prop (deletePhrases_of S T) T"
  by (auto simp: deleteStep_def Let_def split: if_splits prod.splits sum.splits)

lemma addStep_eq:
  "addStep translate S L T w =
     (Inr (fst (batch_loop translate S L (missingPhrases_of S T) (T, w))),
      snd (batch_loop translate S L (missingPhrases_of S T) (T, w)))"
  by (simp add: addStep_def Let_def batch_loop_Nil split: prod.splits)

lemma task_success:
  assumes "targetPath L f = (tdir, tfile)"
      and "ensureLanguageFileExists tdir tfile w = (Inr (), w1)"
      and "readJSONFile tfile w1 = (Inr T, w2)"
      and "deleteStep tfile S T w2 = (Inr T1, w3)"
  shows "targetLanguageTask translate S f L w = addStep translate S L T1 w3"
  using assms by (simp add: targetLanguageTask_def)

lemma task_calls_before:
  assumes "ensureLanguageFileExists tdir tfile w = (r1, w1)"
      and "readJSONFile tfile w1 = (r2, w2)"
      and "deleteStep tfile S T w2 = (r3, w3)"
  shows "translate_calls w3 = translate_calls w"
proof -
  have "translate_calls w1 = translate_calls w"
    using ensure_calls [of tdir tfile w] assms(1) by simp
  moreover have "translate_calls w2 = translate_calls w1"
    using readJSONFile_snd [of tfile w1] assms(2) by (simp add: translate_calls_emit)
  moreover have "translate_calls w3 = translate_calls w2"
    using deleteStep_calls [of tfile S T w2] assms(3) by simp
  ultimately show ?thesis by simp
qed

lemma missing_after_delete:
  "set (missingPhrases_of S (fold delete_prop (deletePhrases_of S T) T))
     = set (Object_keys S) - set (Object_keys T)"
  by (auto simp: deletePhrases_of_def missingPhrases_of_def set_difference keys_fold_delete_prop)

lemma distinct_missing: "distinct (missingPhrases_of S T)"
  by (simp add: missingPhrases_of_def distinct_difference)

lemma task_failure_calls:
  "fst (targetLanguageTask translate S f L w) = Inl e \<Longrightarrow>
   translate_calls (snd (targetLanguageTask translate S f L w)) = translate_calls w"
proof -
  assume failed: "fst (targetLanguageTask translate S f L w) = Inl e"
  obtain tdir tfile where tp: "targetPath L f = (tdir, tfile)"
    by (cases "targetPath L f")
  obtain r1 w1 where en: "ensureLanguageFileExists tdir tfile w = (r1, w1)"
    by (cases "ensureLanguageFileExists tdir tfile w")
  obtain r2 w2 where rd: "readJSONFile tfile w1 = (r2, w2)"
    by (cases "readJSONFile tfile w1")
  have c1: "translate_calls w1 = translate_calls w"
    using ensure_calls [of tdir tfile w] en by simp
  have c2: "translate_calls w2 = translate_calls w1"
    using readJSONFile_snd [of tfile w1] rd by (simp add: translate_calls_emit)
  show ?thesis
  proof (cases r1)
    case (Inl e1)
    then show ?thesis using tp en c1 by (simp add: targetLanguageTask_def)
  next
    case (Inr u)
    show ?thesis
    proof (cases r2)
      case (Inl e2)
      then show ?thesis using tp en rd Inr c1 c2 by (simp add: targetLanguageTask_def)
    next
      case T: (Inr T)
      obtain r3 w3 where dl: "deleteStep tfile S T w2 = (r3, w3)"
        by (cases "deleteStep tfile S T w2")
      have c3: "translate_calls w3 = translate_calls w2"
        using deleteStep_calls [of tfile S T w2] dl by simp
      show ?thesis
      proof (cases r3)
        case (Inl e3)
        then show ?thesis using tp en rd dl Inr T c1 c2 c3 by (simp add: targetLanguageTask_def)
      next
        case T1: (Inr T1)
        then have "fst (targetLanguageTask translate S f L w) = fst (addStep translate S L T1 w3)"
          using tp en rd dl Inr T by (simp add: targetLanguageTask_def)
        then show ?thesis using failed by (simp add: addStep_eq)
      qed
    qed
  qed
qed

lemma missing_not_in_target:
  "k \<in> set (missingPhrases_of S T) \<Longrightarrow> get_prop T k = None"
  by (simp add: missingPhrases_of_def set_difference get_prop_None)

lemma readJSONFile_Some:
  "readJSONFile p w = (Inr T, w1) \<Longrightarrow> files w p = Some (JsonObject T) \<and> p \<notin> dirs w"
  by (auto simp: readJSONFile_def Let_def split: if_splits option.splits content.splits)

lemma ensure_files_dirs:
  "ensureLanguageFileExists tdir tfile w = (Inr (), w1) \<Longrightarrow> path_exists w tfile \<Longrightarrow>
   files w1 = files w"
  using path_exists_ensureDir_mono [of w tfile tdir]
  by (auto simp: ensure_eq)

subsection \<open>The pass for the source language\<close>

lemma difference_loop_subset: "set xs \<subseteq> set s \<Longrightarrow> difference_loop xs s = []"
  by (induction xs arbitrary: s) auto

lemma difference_self: "difference xs xs = []"
  by (simp add: difference_def difference_loop_subset)

lemma ensureDir_exists: "path_exists w tdir \<Longrightarrow> ensureDir tdir w = emit (Stat tdir) w"
  by (simp add: ensureDir_def fileExists_eq)

lemma readJSONFile_ok:
  "files w p = Some (JsonObject T) \<Longrightarrow> p \<notin> dirs w \<Longrightarrow>
   readJSONFile p w = (Inr T, emit (ReadJSON p) w)"
  by (simp add: readJSONFile_def Let_def)

lemma targetPath_en:
  "targetPath (targetLanguages ! 0) f = (ENGLISH_BASE, ENGLISH_BASE @ str ''/'' @ f)"
  by (simp add: targetPath_def targetLanguages_def ENGLISH_BASE_def SOURCE_BASE_def str_def)

lemma en_pass:
  assumes "readJSONFile (ENGLISH_BASE @ str ''/'' @ f) w = (Inr S, w0)"
      and "ENGLISH_BASE \<in> dirs w"
  shows "targetLanguageTask translate S f (targetLanguages ! 0) w0 =
           (Inr S, w0\<lparr>trace := trace w0 @ [Stat ENGLISH_BASE, Stat (ENGLISH_BASE @ str ''/'' @ f),
                                            ReadJSON (ENGLISH_BASE @ str ''/'' @ f)]\<rparr>)"
proof -
  let ?p = "ENGLISH_BASE @ str ''/'' @ f"
  have w0: "w0 = emit (ReadJSON ?p) w"
    using readJSONFile_snd [of ?p w] assms(1) by simp
  have content: "files w ?p = Some (JsonObject S)" and nodir: "?p \<notin> dirs w"
    using readJSONFile_Some [OF assms(1)] by simp_all
  have d: "path_exists w0 ENGLISH_BASE"
    using assms(2) by (simp add: w0 path_exists_def)
  have e: "ensureLanguageFileExists ENGLISH_BASE ?p w0
             = (Inr (), emit (Stat ?p) (emit (Stat ENGLISH_BASE) w0))"
  proof -
    have "ensureDir ENGLISH_BASE w0 = emit (Stat ENGLISH_BASE) w0"
      by (rule ensureDir_exists [OF d])
    moreover have "path_exists w0 ?p"
      using content by (simp add: w0 path_exists_def)
    ultimately show ?thesis
      by (simp add: ensure_eq)
  qed
  have r: "readJSONFile ?p (emit (Stat ?p) (emit (Stat ENGLISH_BASE) w0))
             = (Inr S, emit (ReadJSON ?p) (emit (Stat ?p) (emit (Stat ENGLISH_BASE) w0)))"
    using content nodir by (intro readJSONFile_ok) (simp_all add: w0)
  have "targetLanguageTask translate S f (targetLanguages ! 0) w0 =
          (Inr S, emit (ReadJSON ?p) (emit (Stat ?p) (emit (Stat ENGLISH_BASE) w0)))"
    by (simp add: targetLanguageTask_def targetPath_en e r deleteStep_def addStep_def
          deletePhrases_of_def missingPhrases_of_def difference_self)
  then show ?thesis
    by (simp add: emit_def)
qed

subsection \<open>Evaluation\<close>

lemma settle_order_const: "(\<And>n. arrival w n = c) \<Longrightarrow> settle_order w ps = ps"
  by (simp add: settle_order_def case_prod_unfold sort_key_const)

lemmas script_defs =
  targetLanguageTask_def targetPath_def ensureLanguageFileExists_def ensureDir_def
  fileExists_def fs_stat_def fs_mkdir_def fs_writeFile_def Bun_write_def readJSONFile_def
  deleteStep_def addStep_def deletePhrases_of_def missingPhrases_of_def difference_def
  Object_keys_def delete_prop_def JSON_stringify_def path_exists_def is_dir_def dirname_def
  emit_def runTranslation_def runTranslation_call_def runTranslation_settled_def
  Promise_all_map_def settle_order_def set_prop_def array_index_def is_digit_def PROTO_def
  translate_calls_def or_empty_def get_prop_def
  SOURCE_BASE_def ENGLISH_BASE_def TRANSLATION_BATCH_SIZE_def targetLanguages_def str_def
  GT_def isWhiteSpace_def Let_def batch_loop.simps

lemmas input_defs =
  lang_en_def lang_es_def lang_de_def path_es_dir_def path_es_translation_def
  path_en_translation_def path_de_translation_def world_empty_def world_scenario_def
  world_es_empty_def world_in_sync_def world_late_def scenario_source_def scenario_target_def
  target_in_sync_def three_phrases_def title_phrases_def plain_phrases_def proto_phrases_def
  translate_bye_def translate_not_bye_def translate_not_b_def translate_tagged_def
  translate_spaced_def translate_tab_def tab_translation_def

section \<open>The claims\<close>

subsection \<open>C1: the key set of the persisted target\<close>

text \<open>
  C1 on the scenario of the specification: the source has the keys \<^verbatim>\<open>hello\<close> and
  \<^verbatim>\<open>bye\<close>, the Spanish file the keys \<^verbatim>\<open>hello\<close> and \<^verbatim>\<open>old\<close>, and the translation of
  \<^verbatim>\<open>Bye\<close> succeeds. The pass ends without an error and the object in memory has the two
  keys of the source, but the file holds the key \<^verbatim>\<open>hello\<close> only: the deletion was written
  by line 118, the addition was not, since the writes of lines 165 and 166 are commented
  out.
\<close>

theorem C1_scenario:
  "fst (targetLanguageTask translate_bye scenario_source (str ''translation.json'') lang_es
          world_scenario)
     = Inr [(str ''hello'', str ''Hola''), (str ''bye'', str ''Adios'')]
   \<and> files (snd (targetLanguageTask translate_bye scenario_source (str ''translation.json'')
                   lang_es world_scenario)) path_es_translation
     = Some (JsonObject [(str ''hello'', str ''Hola'')])"
  by (simp add: script_defs input_defs)

subsection \<open>C2: the merged mapping after the translations\<close>

text \<open>
  C2 on a target that does not exist yet: the German directory and file are created with
  the empty mapping, both keys of the source are missing and both translations succeed.
  The pass ends without an error with both keys in the object in memory, and the file
  still holds the empty mapping: nothing is written after the loop.
\<close>

theorem C2_absent_target:
  "fst (targetLanguageTask translate_tagged scenario_source (str ''translation.json'') lang_de
          world_scenario)
     = Inr [(str ''hello'', str ''de:Hello''), (str ''bye'', str ''de:Bye'')]
   \<and> files (snd (targetLanguageTask translate_tagged scenario_source (str ''translation.json'')
                   lang_de world_scenario)) path_de_translation
     = Some (JsonObject [])"
  by (simp add: script_defs input_defs)

subsection \<open>C3: the normalization of a translated value\<close>

text \<open>
  C3, as stated, fails: a translated value without the sequence of a right angle bracket
  and a space is not always stored unchanged. The expression of line 143 matches the
  class \<^verbatim>\<open>\s\<close>, so a tabulator after a tag is removed too.
\<close>

theorem C3_counterexample:
  "\<not> includes_str tab_translation (str ''> '')
   \<and> get_prop (fst (runTranslation translate_tab title_phrases lang_es (str ''title'')
                      ([], world_empty))) (str ''title'')
       \<noteq> Some tab_translation"
  by (simp add: script_defs input_defs)

text \<open>
  C3, amended: when the translation of a key of the source other than \<^verbatim>\<open>__proto__\<close>
  succeeds, the value stored under the key is the translated text in which every white
  space character (any character of the class \<^verbatim>\<open>\s\<close>) that directly follows a right
  angle bracket is removed; a translated value in which no right angle bracket is directly
  followed by a white space character is stored unchanged.
\<close>

theorem C3_normalization:
  assumes "key \<in> set (Object_keys sourcePhrases)"
      and "key \<noteq> PROTO"
      and "translate (length (translate_calls w)) (or_empty (get_prop sourcePhrases key))
             (str ''en'') (code targetLanguage) = Inr translation"
  shows "get_prop (fst (runTranslation translate sourcePhrases targetLanguage key
                          (targetPhrases, w))) key
           = Some (drop_ws_after_gt 0 translation)
         \<and> (gt_ws_free translation \<longrightarrow>
              get_prop (fst (runTranslation translate sourcePhrases targetLanguage key
                               (targetPhrases, w))) key
                = Some translation)"
proof -
  have "answer_of translate sourcePhrases targetLanguage (length (translate_calls w)) key
          = Inr translation"
    using assms(3) by (simp add: answer_of_def)
  then have stored: "get_prop (fst (runTranslation translate sourcePhrases targetLanguage key
                                 (targetPhrases, w))) key
                  = Some (replaceAll_gt_ws translation)"
    using assms(2) by (simp add: runTranslation_eq get_prop_set_prop)
  have "replaceAll_gt_ws translation = drop_ws_after_gt 0 translation"
    by (rule replaceAll_drop_ws) (simp add: GT_def)
  moreover have "gt_ws_free translation \<longrightarrow> replaceAll_gt_ws translation = translation"
    by (simp add: replaceAll_gt_ws_free)
  ultimately show ?thesis
    using stored by auto
qed

theorem C3_witness:
  "str ''title'' \<in> set (Object_keys plain_phrases)
   \<and> get_prop (fst (runTranslation translate_spaced plain_phrases lang_es (str ''title'')
                    ([], world_empty))) (str ''title'')
     = Some (str ''<b>Hola</b><i>!</i>'')
   \<and> str ''greeting'' \<in> set (Object_keys plain_phrases)
   \<and> gt_ws_free (str ''Hola'')
   \<and> get_prop (fst (runTranslation translate_spaced plain_phrases lang_es (str ''greeting'')
                    ([], world_empty))) (str ''greeting'')
     = Some (str ''Hola'')"
  using C3_normalization [of "str ''title''" plain_phrases translate_spaced world_empty lang_es
          "str ''<b> Hola</b> <i>!</i>''" "[]"]
        C3_normalization [of "str ''greeting''" plain_phrases translate_spaced world_empty lang_es
          "str ''Hola''" "[]"]
  by (simp add: script_defs input_defs)

subsection \<open>C4: the languages of the inner loop\<close>

text \<open>
  C4, as stated, fails: the list of lines 30 to 34 starts with the source language and the
  loop of line 98 skips nothing. A pass is started for \<^verbatim>\<open>en\<close>, and on the scenario this
  pass checks the English directory and file and reads the file.
\<close>

theorem C4_counterexample:
  "code lang_en = str ''en''
   \<and> targetLanguageTask translate_bye scenario_source (str ''translation.json'') lang_en
       \<in> set (passes translate_bye scenario_source (str ''translation.json''))
   \<and> trace (snd (targetLanguageTask translate_bye scenario_source (str ''translation.json'')
                    lang_en world_scenario))
       = [Stat (str ''public/locales/en''), Stat path_en_translation,
          ReadJSON path_en_translation]"
proof -
  have "code lang_en = str ''en''"
    by (simp add: lang_en_def targetLanguages_def)
  moreover have "targetLanguageTask translate_bye scenario_source (str ''translation.json'')
                   lang_en
                 \<in> set (passes translate_bye scenario_source (str ''translation.json''))"
    by (simp add: passes_def lang_en_def targetLanguages_def)
  moreover have "trace (snd (targetLanguageTask translate_bye scenario_source
                               (str ''translation.json'') lang_en world_scenario))
       = [Stat (str ''public/locales/en''), Stat path_en_translation,
          ReadJSON path_en_translation]"
    by (simp add: script_defs input_defs)
  ultimately show ?thesis
    by simp
qed

text \<open>
  C4, amended: the inner loop starts one pass for every configured descriptor, the source
  language included. For \<^verbatim>\<open>en\<close> the target file is the source file: when the source file
  was read and the English directory exists, the pass checks directory and file, reads the
  file, finds nothing to delete and nothing to add, and neither writes nor calls the
  translation client.
\<close>

theorem C4_every_language:
  "length (passes translate S f) = length targetLanguages
   \<and> (\<forall>i < length targetLanguages.
        passes translate S f ! i = targetLanguageTask translate S f (targetLanguages ! i))
   \<and> code (targetLanguages ! 0) = str ''en''
   \<and> (readJSONFile (ENGLISH_BASE @ str ''/'' @ f) w = (Inr S, w0) \<and> ENGLISH_BASE \<in> dirs w \<longrightarrow>
        targetLanguageTask translate S f (targetLanguages ! 0) w0 =
          (Inr S, w0\<lparr>trace := trace w0 @ [Stat ENGLISH_BASE, Stat (ENGLISH_BASE @ str ''/'' @ f),
                                           ReadJSON (ENGLISH_BASE @ str ''/'' @ f)]\<rparr>))"
proof (intro conjI impI allI)
  show "length (passes translate S f) = length targetLanguages"
    by (simp add: passes_def)
next
  fix i assume "i < length targetLanguages"
  then show "passes translate S f ! i = targetLanguageTask translate S f (targetLanguages ! i)"
    by (simp add: passes_def)
next
  show "code (targetLanguages ! 0) = str ''en''"
    by (simp add: targetLanguages_def)
next
  assume "readJSONFile (ENGLISH_BASE @ str ''/'' @ f) w = (Inr S, w0) \<and> ENGLISH_BASE \<in> dirs w"
  then show "targetLanguageTask translate S f (targetLanguages ! 0) w0 =
          (Inr S, w0\<lparr>trace := trace w0 @ [Stat ENGLISH_BASE, Stat (ENGLISH_BASE @ str ''/'' @ f),
                                           ReadJSON (ENGLISH_BASE @ str ''/'' @ f)]\<rparr>)"
    using en_pass by blast
qed

theorem C4_witness:
  "readJSONFile path_en_translation world_scenario
     = (Inr scenario_source, emit (ReadJSON path_en_translation) world_scenario)
   \<and> str ''public/locales/en'' \<in> dirs world_scenario
   \<and> passes translate_bye scenario_source (str ''translation.json'') ! 0
       = targetLanguageTask translate_bye scenario_source (str ''translation.json'') lang_en
   \<and> targetLanguageTask translate_bye scenario_source (str ''translation.json'') lang_en
       (emit (ReadJSON path_en_translation) world_scenario)
     = (Inr scenario_source,
        world_scenario\<lparr>trace := [ReadJSON path_en_translation, Stat (str ''public/locales/en''),
                                   Stat path_en_translation, ReadJSON path_en_translation]\<rparr>)"
  using C4_every_language [of translate_bye scenario_source "str ''translation.json''"
          world_scenario "emit (ReadJSON path_en_translation) world_scenario"]
  by (simp add: script_defs input_defs passes_def)

subsection \<open>C5: a failed translation stays local\<close>

text \<open>
  C5, as stated, fails. With three missing keys of which \<^verbatim>\<open>bye\<close> is rejected, the client
  answers \<^verbatim>\<open><p> Hello\<close> for \<^verbatim>\<open>hello\<close> and the pass stores \<^verbatim>\<open><p>Hello\<close>: the stored value is
  not the translated value but what line 143 makes of it. And a missing key \<^verbatim>\<open>__proto__\<close>
  whose translation succeeds is absent after the pass: the assignment of line 143 does not
  create that property.
\<close>

theorem C5_counterexample:
  "answer_of translate_not_bye three_phrases lang_es 0 (str ''hello'') = Inr (str ''<p> Hello'')
   \<and> answer_of translate_not_bye three_phrases lang_es 1 (str ''bye'') = Inl ProviderError
   \<and> answer_of translate_not_bye three_phrases lang_es 2 (str ''thanks'')
       = Inr (str ''<p> Thanks'')
   \<and> fst (targetLanguageTask translate_not_bye three_phrases (str ''translation.json'') lang_es
            world_es_empty)
       = Inr [(str ''hello'', str ''<p>Hello''), (str ''thanks'', str ''<p>Thanks'')]
   \<and> get_prop [(str ''hello'', str ''<p>Hello''), (str ''thanks'', str ''<p>Thanks'')]
         (str ''hello'') \<noteq> Some (str ''<p> Hello'')
   \<and> answer_of translate_not_b proto_phrases lang_es 0 (str ''a'') = Inr (str ''es:A'')
   \<and> answer_of translate_not_b proto_phrases lang_es 1 PROTO = Inr (str ''es:Proto'')
   \<and> answer_of translate_not_b proto_phrases lang_es 2 (str ''b'') = Inl ProviderError
   \<and> fst (targetLanguageTask translate_not_b proto_phrases (str ''translation.json'') lang_es
            world_es_empty)
       = Inr [(str ''a'', str ''es:A'')]"
  by (simp add: script_defs input_defs answer_of_def)

text \<open>
  C5, amended: let the ensure, read and deletion steps of a pass succeed, and let the call
  for the missing key at position \<open>i\<close> be rejected while the calls for all other keys of the
  same batch (the positions \<open>j\<close> with the same quotient by the batch size) succeed with the
  texts \<open>t j\<close>. Then the pass ends without an error, the key at position \<open>i\<close> is absent
  from the target object, and every other key of the batch, the key \<^verbatim>\<open>__proto__\<close> apart,
  is present with its translated value after the replacement of line 143.
\<close>

theorem C5_failure_isolation:
  assumes "targetPath L f = (tdir, tfile)"
      and "ensureLanguageFileExists tdir tfile w = (Inr (), w1)"
      and "readJSONFile tfile w1 = (Inr T, w2)"
      and "deleteStep tfile S T w2 = (Inr T1, w3)"
      and "i < length (missingPhrases_of S T1)"
      and "answer_of translate S L (length (translate_calls w) + i)
             (missingPhrases_of S T1 ! i) = Inl e"
      and "\<forall>j < length (missingPhrases_of S T1).
             j \<noteq> i \<and> j div TRANSLATION_BATCH_SIZE = i div TRANSLATION_BATCH_SIZE \<longrightarrow>
             answer_of translate S L (length (translate_calls w) + j)
               (missingPhrases_of S T1 ! j) = Inr (t j)"
  shows "\<exists>T'. fst (targetLanguageTask translate S f L w) = Inr T'
           \<and> get_prop T' (missingPhrases_of S T1 ! i) = None
           \<and> (\<forall>j < length (missingPhrases_of S T1).
                 j \<noteq> i \<and> j div TRANSLATION_BATCH_SIZE = i div TRANSLATION_BATCH_SIZE
                 \<and> missingPhrases_of S T1 ! j \<noteq> PROTO \<longrightarrow>
                 get_prop T' (missingPhrases_of S T1 ! j) = Some (replaceAll_gt_ws (t j)))"
proof -
  let ?ms = "missingPhrases_of S T1"
  let ?T' = "fst (batch_loop translate S L ?ms (T1, w3))"
  have task: "targetLanguageTask translate S f L w = addStep translate S L T1 w3"
    using assms(1-4) by (rule task_success)
  have before: "translate_calls w3 = translate_calls w"
    using assms(2-4) by (rule task_calls_before)
  have res: "fst (targetLanguageTask translate S f L w) = Inr ?T'"
    by (simp add: task addStep_eq)
  have get: "get_prop ?T' (?ms ! j) =
               (case answer_of translate S L (length (translate_calls w) + j) (?ms ! j) of
                  Inr t \<Rightarrow> if ?ms ! j = PROTO \<and> get_prop T1 (?ms ! j) = None then None
                           else Some (replaceAll_gt_ws t)
                | Inl e \<Rightarrow> get_prop T1 (?ms ! j))" if "j < length ?ms" for j
    using batch_loop_get [OF distinct_missing that, of translate S L T1 w3] before by simp
  have "get_prop T1 (?ms ! i) = None"
    using assms(5) missing_not_in_target [of "?ms ! i" S T1] by simp
  then have absent: "get_prop ?T' (?ms ! i) = None"
    using get [OF assms(5)] assms(6) by simp
  have others: "\<forall>j < length ?ms.
                 j \<noteq> i \<and> j div TRANSLATION_BATCH_SIZE = i div TRANSLATION_BATCH_SIZE
                 \<and> ?ms ! j \<noteq> PROTO \<longrightarrow>
                 get_prop ?T' (?ms ! j) = Some (replaceAll_gt_ws (t j))"
    using get assms(7) by simp
  show ?thesis
    using res absent others by blast
qed

theorem C5_witness:
  "missingPhrases_of three_phrases [] = [str ''hello'', str ''bye'', str ''thanks'']
   \<and> answer_of translate_not_bye three_phrases lang_es 1 (str ''bye'') = Inl ProviderError
   \<and> fst (targetLanguageTask translate_not_bye three_phrases (str ''translation.json'') lang_es
            world_late)
       = Inr [(str ''thanks'', str ''<p>Thanks''), (str ''hello'', str ''<p>Hello'')]"
  using C5_failure_isolation [where L = lang_es and f = "str ''translation.json''"
          and tdir = path_es_dir and tfile = path_es_translation and w = world_late
          and ?w1.0 = "snd (ensureLanguageFileExists path_es_dir path_es_translation world_late)"
          and T = "[]"
          and ?w2.0 = "emit (ReadJSON path_es_translation)
                 (snd (ensureLanguageFileExists path_es_dir path_es_translation world_late))"
          and S = three_phrases
          and ?T1.0 = "[]"
          and ?w3.0 = "emit (ReadJSON path_es_translation)
                 (snd (ensureLanguageFileExists path_es_dir path_es_translation world_late))"
          and translate = translate_not_bye and e = ProviderError and i = 1
          and t = "\<lambda>j. str ''<p> '' @ snd (three_phrases ! j)"]
  by (simp add: script_defs input_defs answer_of_def All_less_Suc)

subsection \<open>C6: the two differences\<close>

text \<open>
  C6: the keys to delete are the keys of the target that the source does not have, and
  the missing keys, computed after the deletions on the target object, are the keys of the
  source that the target does not have.
\<close>

theorem C6_difference_sets:
  "set (deletePhrases_of sourcePhrases targetPhrases)
     = set (Object_keys targetPhrases) - set (Object_keys sourcePhrases)
   \<and> set (missingPhrases_of sourcePhrases
            (fold delete_prop (deletePhrases_of sourcePhrases targetPhrases) targetPhrases))
     = set (Object_keys sourcePhrases) - set (Object_keys targetPhrases)"
  by (auto simp: deletePhrases_of_def missingPhrases_of_def set_difference keys_fold_delete_prop)

subsection \<open>C7: the batching loop\<close>

text \<open>
  C7: the loop of lines 151 to 161 is a total function. On any list of missing keys it runs
  \<open>iterations (length ms)\<close> times, which is the ceiling of the length divided by the batch
  size 100. Iteration \<open>i\<close> prints its line, issues the calls of batch \<open>i\<close> (the keys at
  positions \<open>100 * i\<close> up to \<open>100 * i + 99\<close>) one after the other, and ends when each of
  these calls has settled, once, in the order the world chooses: in the trace the records
  of the settled calls of a batch follow all calls of the batch and precede the line of the
  next iteration. The batches are non-empty, hold at most 100 keys, and concatenated in
  order they give the list back.
\<close>

theorem C7_batching:
  "trace (snd (batch_loop translate S L ms (T, w)))
     = trace w
       @ concat (map (iteration_events translate S L w ms) [0..<iterations (length ms)])
   \<and> concat (map (\<lambda>i. nth_batch i ms) [0..<iterations (length ms)]) = ms
   \<and> (\<forall>i < iterations (length ms).
        nth_batch i ms \<noteq> [] \<and> length (nth_batch i ms) \<le> TRANSLATION_BATCH_SIZE
        \<and> map snd (pending_of (length (translate_calls w)) ms i) = nth_batch i ms
        \<and> set (settle_order w (pending_of (length (translate_calls w)) ms i))
            = set (pending_of (length (translate_calls w)) ms i)
        \<and> length (settle_order w (pending_of (length (translate_calls w)) ms i))
            = length (nth_batch i ms))
   \<and> int (iterations (length ms)) = \<lceil>real (length ms) / real TRANSLATION_BATCH_SIZE\<rceil>"
proof -
  have "length (settle_order w (pending_of (length (translate_calls w)) ms i))
          = length (nth_batch i ms)" for i
    using pending_of_keys [of "length (translate_calls w)" ms i]
    by (metis length_map length_settle_order)
  then show ?thesis
    using batch_loop_trace concat_batches nth_batch_bounds iterations_ceiling pending_of_keys
      set_settle_order
    by blast
qed

theorem C7_witness:
  "iterations (length keys_101) = 2
   \<and> nth_batch 1 keys_101 = [numbered_key 100]
   \<and> trace (snd (batch_loop translate_tagged phrases_101 lang_es keys_101 ([], world_es_empty)))
       = BatchLog (str ''es'') 2
         # map (call_of phrases_101 lang_es) (take 100 keys_101)
         @ map (settled_event translate_tagged phrases_101 lang_es)
             (zip [0..<100] (take 100 keys_101))
         @ [BatchLog (str ''es'') 1, call_of phrases_101 lang_es (numbered_key 100),
            settled_event translate_tagged phrases_101 lang_es (100, numbered_key 100)]
   \<and> trace (snd (batch_loop translate_not_bye three_phrases lang_es
                    [str ''hello'', str ''bye'', str ''thanks''] ([], world_late)))
       = [BatchLog (str ''es'') 1,
          Translate (str ''Hello'') (str ''en'') (str ''es''),
          Translate (str ''Bye'') (str ''en'') (str ''es''),
          Translate (str ''Thanks'') (str ''en'') (str ''es''),
          Settled 2 (Inr (str ''<p> Thanks'')),
          Settled 1 (Inl ProviderError),
          Settled 0 (Inr (str ''<p> Hello''))]"
proof -
  have len: "length keys_101 = 101"
    by (simp add: keys_101_def)
  have it: "iterations (length keys_101) = 2"
    by (simp add: len iterations_def TRANSLATION_BATCH_SIZE_def)
  have b0: "nth_batch 0 keys_101 = take 100 keys_101"
    by (simp add: nth_batch_def TRANSLATION_BATCH_SIZE_def)
  have b1: "nth_batch 1 keys_101 = [numbered_key 100]"
    by (simp add: nth_batch_def TRANSLATION_BATCH_SIZE_def keys_101_def drop_map)
  have b1s: "nth_batch (Suc 0) keys_101 = [numbered_key 100]"
    using b1 by simp
  have so: "settle_order world_es_empty ps = ps" for ps
    by (rule settle_order_const [of _ 0]) (simp add: world_es_empty_def)
  have c0: "translate_calls world_es_empty = []"
    by (simp add: translate_calls_def world_es_empty_def)
  have t0: "trace world_es_empty = []"
    by (simp add: world_es_empty_def)
  have cd: "code lang_es = str ''es''"
    by (simp add: lang_es_def targetLanguages_def)
  have big: "trace (snd (batch_loop translate_tagged phrases_101 lang_es keys_101
                           ([], world_es_empty)))
       = BatchLog (str ''es'') 2
         # map (call_of phrases_101 lang_es) (take 100 keys_101)
         @ map (settled_event translate_tagged phrases_101 lang_es)
             (zip [0..<100] (take 100 keys_101))
         @ [BatchLog (str ''es'') 1, call_of phrases_101 lang_es (numbered_key 100),
            settled_event translate_tagged phrases_101 lang_es (100, numbered_key 100)]"
    using C7_batching [of translate_tagged phrases_101 lang_es keys_101 "[]" world_es_empty]
    by (simp add: it numeral_2_eq_2 iteration_events_def pending_of_def b0 b1s so c0 len t0 cd
          TRANSLATION_BATCH_SIZE_def)
  have small: "trace (snd (batch_loop translate_not_bye three_phrases lang_es
                    [str ''hello'', str ''bye'', str ''thanks''] ([], world_late)))
       = [BatchLog (str ''es'') 1,
          Translate (str ''Hello'') (str ''en'') (str ''es''),
          Translate (str ''Bye'') (str ''en'') (str ''es''),
          Translate (str ''Thanks'') (str ''en'') (str ''es''),
          Settled 2 (Inr (str ''<p> Thanks'')),
          Settled 1 (Inl ProviderError),
          Settled 0 (Inr (str ''<p> Hello''))]"
    by (simp add: script_defs input_defs)
  show ?thesis
    using it b1 big small by simp
qed

subsection \<open>C8: nothing to delete and nothing to add\<close>

text \<open>
  C8: when the ensure and read steps succeed and both differences are empty, the pass ends
  right after the read: it issues no call to the translation client and writes nothing,
  so that directories and files are those that the ensure step left, the target file
  holds the mapping that was read, and, when the target file existed before the pass, all
  files are as they were before it.
\<close>

theorem C8_in_sync:
  assumes "targetPath L f = (tdir, tfile)"
      and "ensureLanguageFileExists tdir tfile w = (Inr (), w1)"
      and "readJSONFile tfile w1 = (Inr T, w2)"
      and "deletePhrases_of S T = []"
      and "missingPhrases_of S T = []"
  shows "targetLanguageTask translate S f L w = (Inr T, emit (ReadJSON tfile) w1)
         \<and> translate_calls (snd (targetLanguageTask translate S f L w)) = translate_calls w
         \<and> files (snd (targetLanguageTask translate S f L w)) = files w1
         \<and> dirs (snd (targetLanguageTask translate S f L w)) = dirs w1
         \<and> files (snd (targetLanguageTask translate S f L w)) tfile = Some (JsonObject T)
         \<and> (path_exists w tfile \<longrightarrow>
              files (snd (targetLanguageTask translate S f L w)) = files w)"
proof -
  have w2: "w2 = emit (ReadJSON tfile) w1"
    using readJSONFile_snd [of tfile w1] assms(3) by simp
  have task: "targetLanguageTask translate S f L w = (Inr T, emit (ReadJSON tfile) w1)"
    using assms w2 by (simp add: targetLanguageTask_def deleteStep_def addStep_def)
  have "translate_calls w1 = translate_calls w"
    using ensure_calls [of tdir tfile w] assms(2) by simp
  then have calls: "translate_calls (emit (ReadJSON tfile) w1) = translate_calls w"
    by (simp add: translate_calls_emit)
  have content: "files w1 tfile = Some (JsonObject T)"
    using readJSONFile_Some [OF assms(3)] by simp
  have "path_exists w tfile \<longrightarrow> files w1 = files w"
    using ensure_files_dirs [OF assms(2)] by simp
  then show ?thesis
    using task calls content by simp
qed

theorem C8_witness:
  "targetLanguageTask translate_bye scenario_source (str ''translation.json'') lang_es
     world_in_sync
   = (Inr target_in_sync,
      world_in_sync\<lparr>trace := [Stat path_es_dir, Stat path_es_translation,
                                ReadJSON path_es_translation]\<rparr>)
   \<and> path_exists world_in_sync path_es_translation"
  using C8_in_sync [where L = lang_es and f = "str ''translation.json''"
          and tdir = path_es_dir and tfile = path_es_translation and w = world_in_sync
          and ?w1.0 = "snd (ensureLanguageFileExists path_es_dir path_es_translation world_in_sync)"
          and T = target_in_sync
          and ?w2.0 = "emit (ReadJSON path_es_translation)
                 (snd (ensureLanguageFileExists path_es_dir path_es_translation world_in_sync))"
          and S = scenario_source and translate = translate_bye]
  by (simp add: script_defs input_defs)

subsection \<open>C9: errors of the ensure operation\<close>

text \<open>
  C9, as stated, fails: in a working directory where \<^verbatim>\<open>public/locales\<close> does not exist,
  \<^verbatim>\<open>mkdir\<close> fails and the failure is dropped, then \<^verbatim>\<open>writeFile\<close> fails and its error
  reaches the caller of \<open>ensureLanguageFileExists\<close>.
\<close>

theorem C9_counterexample:
  "fst (ensureLanguageFileExists path_es_dir path_es_translation world_empty) = Inl ENOENT"
  by (simp add: ensureLanguageFileExists_def ensureDir_def fileExists_def fs_stat_def
        fs_mkdir_def fs_writeFile_def path_exists_def is_dir_def dirname_def emit_def
        world_empty_def path_es_dir_def path_es_translation_def str_def Let_def JSON_stringify_def)

text \<open>
  C9, amended: a failure of the directory creation is swallowed (the outcome is that of
  the file step on the unchanged file system), and a failure of the creation of the initial
  empty-mapping file is propagated: \<open>ensureLanguageFileExists\<close> returns an error exactly
  when the file is absent after the directory step and \<^verbatim>\<open>writeFile\<close> fails, and it is the
  error of \<^verbatim>\<open>writeFile\<close>.
\<close>

theorem C9_ensure_errors:
  "(fst (fs_mkdir dir w) = Inl e1 \<longrightarrow>
      fst (ensureLanguageFileExists dir file w) =
        (if path_exists w file then Inr ()
         else fst (fs_writeFile file (JSON_stringify []) w)))
   \<and> (fst (ensureLanguageFileExists dir file w) = Inl e \<longleftrightarrow>
        \<not> path_exists (ensureDir dir w) file
        \<and> fst (fs_writeFile file (JSON_stringify []) (ensureDir dir w)) = Inl e)"
proof (intro conjI impI)
  assume failed: "fst (fs_mkdir dir w) = Inl e1"
  then have d: "dirs (ensureDir dir w) = dirs w"
    by (rule dirs_ensureDir_failed)
  then have p: "path_exists (ensureDir dir w) file = path_exists w file"
    by (simp add: path_exists_def)
  have "fst (fs_writeFile file (JSON_stringify []) (ensureDir dir w))
          = fst (fs_writeFile file (JSON_stringify []) w)"
    using d by (rule fst_fs_writeFile_cong)
  then show "fst (ensureLanguageFileExists dir file w) =
        (if path_exists w file then Inr ()
         else fst (fs_writeFile file (JSON_stringify []) w))"
    using p by (simp add: ensure_eq)
next
  show "fst (ensureLanguageFileExists dir file w) = Inl e \<longleftrightarrow>
        \<not> path_exists (ensureDir dir w) file
        \<and> fst (fs_writeFile file (JSON_stringify []) (ensureDir dir w)) = Inl e"
    by (simp add: ensure_eq)
qed

theorem C9_witness:
  "fst (fs_mkdir (str ''a/b'') world_empty) = Inl ENOENT
   \<and> fst (ensureLanguageFileExists (str ''a/b'') (str ''c.json'') world_empty) = Inr ()
   \<and> fst (ensureLanguageFileExists (str ''a/b'') (str ''a/b/c.json'') world_empty) = Inl ENOENT"
  using C9_ensure_errors [of "str ''a/b''" world_empty ENOENT "str ''c.json''" ENOENT]
        C9_ensure_errors [of "str ''a/b''" world_empty ENOENT "str ''a/b/c.json''" ENOENT]
  by (simp add: fs_mkdir_def fs_writeFile_def path_exists_def is_dir_def dirname_def emit_def
        world_empty_def str_def Let_def JSON_stringify_def)

subsection \<open>C10: the calls to the translation client\<close>

text \<open>
  C10: in a pass whose ensure, read and deletion steps succeed, the calls issued to the
  translation client are, in order, one call per missing key: its text is the value of the
  key in the source mapping (the empty string when that value is falsy), its source
  language is \<^verbatim>\<open>en\<close> and its target language is the code of the target language. The
  missing keys are distinct and are exactly the keys of the source that the target file
  does not have. A pass that ends with an error issues no call at all.
\<close>

theorem C10_calls:
  "(targetPath L f = (tdir, tfile)
    \<and> ensureLanguageFileExists tdir tfile w = (Inr (), w1)
    \<and> readJSONFile tfile w1 = (Inr T, w2)
    \<and> deleteStep tfile S T w2 = (Inr T1, w3)
    \<longrightarrow> translate_calls (snd (targetLanguageTask translate S f L w))
          = translate_calls w @ map (call_of S L) (missingPhrases_of S T1)
        \<and> distinct (missingPhrases_of S T1)
        \<and> set (missingPhrases_of S T1) = set (Object_keys S) - set (Object_keys T))
   \<and> (fst (targetLanguageTask translate S f L w) = Inl e
      \<longrightarrow> translate_calls (snd (targetLanguageTask translate S f L w)) = translate_calls w)"
proof (intro conjI impI)
  assume a: "targetPath L f = (tdir, tfile)
    \<and> ensureLanguageFileExists tdir tfile w = (Inr (), w1)
    \<and> readJSONFile tfile w1 = (Inr T, w2)
    \<and> deleteStep tfile S T w2 = (Inr T1, w3)"
  then have task: "targetLanguageTask translate S f L w = addStep translate S L T1 w3"
    by (simp add: task_success)
  have before: "translate_calls w3 = translate_calls w"
    using a task_calls_before by blast
  show "translate_calls (snd (targetLanguageTask translate S f L w))
          = translate_calls w @ map (call_of S L) (missingPhrases_of S T1)"
    by (simp add: task addStep_eq batch_loop_calls before)
  show "distinct (missingPhrases_of S T1)"
    by (rule distinct_missing)
  have "T1 = fold delete_prop (deletePhrases_of S T) T"
    using a deleteStep_result by blast
  then show "set (missingPhrases_of S T1) = set (Object_keys S) - set (Object_keys T)"
    by (simp add: missing_after_delete)
next
  assume "fst (targetLanguageTask translate S f L w) = Inl e"
  then show "translate_calls (snd (targetLanguageTask translate S f L w)) = translate_calls w"
    by (rule task_failure_calls)
qed

theorem C10_witness:
  "translate_calls (snd (targetLanguageTask translate_bye scenario_source
                           (str ''translation.json'') lang_es world_scenario))
     = [Translate (str ''Bye'') (str ''en'') (str ''es'')]
   \<and> fst (targetLanguageTask translate_bye scenario_source (str ''translation.json'') lang_es
            world_empty) = Inl ENOENT
   \<and> translate_calls (snd (targetLanguageTask translate_bye scenario_source
                             (str ''translation.json'') lang_es world_empty)) = []"
  using C10_calls [where L = lang_es and f = "str ''translation.json''"
          and tdir = path_es_dir and tfile = path_es_translation and w = world_scenario
          and ?w1.0 = "snd (ensureLanguageFileExists path_es_dir path_es_translation world_scenario)"
          and T = scenario_target
          and ?w2.0 = "emit (ReadJSON path_es_translation)
                 (snd (ensureLanguageFileExists path_es_dir path_es_translation world_scenario))"
          and S = scenario_source
          and ?T1.0 = "[(str ''hello'', str ''Hola'')]"
          and ?w3.0 = "snd (deleteStep path_es_translation scenario_source scenario_target
                 (emit (ReadJSON path_es_translation)
                 (snd (ensureLanguageFileExists path_es_dir path_es_translation world_scenario))))"
          and translate = translate_bye and e = ENOENT]
        C10_calls [where L = lang_es and f = "str ''translation.json''"
          and w = world_empty and S = scenario_source
          and translate = translate_bye and e = ENOENT]
  by (simp add: script_defs input_defs call_of_def)

end
